theory Spec2Isabelle
  imports Main "HOL-Library.AList" "HOL-Library.Sublist"
begin

section \<open>The installation engine of sage-setup\<close>

text \<open>
  The development embeds \<^verbatim>\<open>src/sage_dev/installer.py\<close>, the tables of
  \<^verbatim>\<open>src/sage_dev/constants.py\<close> and the installation loop of
  \<^verbatim>\<open>src/sage_dev/cli.py\<close>. The installer talks to the file system through
  \<^verbatim>\<open>pathlib\<close> and \<^verbatim>\<open>shutil\<close>; those calls are modelled on a directory
  tree, with every exception they can raise on such a tree as a value.
\<close>

subsection \<open>Paths, the directory tree and the world\<close>

text \<open>
  An absolute path is the list of its components below the root. A node is a regular
  file with its content, or a directory with a flag (may the installing user create
  entries in it?) and its entries in listing order. Symbolic links, read permissions,
  time stamps of files and a full disk are not part of the model.
\<close>

type_synonym path = "string list"

datatype node = File string | Dir bool "(string \<times> node) list"

datatype error =
    KeyError string
  | FileExistsError
  | FileNotFoundError
  | NotADirectoryError
  | IsADirectoryError
  | PermissionError
  | SameFileError

text \<open>The lines printed by \<^verbatim>\<open>show_info\<close>, \<^verbatim>\<open>show_success\<close>,
  \<^verbatim>\<open>show_warning\<close> and \<^verbatim>\<open>show_installation_progress\<close> of \<^verbatim>\<open>display.py\<close>,
  without their colour markup. The progress spinner and the blank lines carry no data
  and are left out.\<close>

datatype msg = Info string | Success string | Warning string | Rule string

record datetime =
  year :: nat
  month :: nat
  day :: nat
  hour :: nat
  minute :: nat
  second :: nat

text \<open>
  The world an installation runs in: the directory tree, \<^verbatim>\<open>Path.cwd()\<close>,
  \<^verbatim>\<open>Path.home()\<close>, the value of \<^verbatim>\<open>datetime.now()\<close> and the lines shown on the
  console so far.
\<close>

record world =
  root :: node
  cwd :: path
  home :: path
  now :: datetime
  console :: "msg list"

text \<open>A computation returns a value or raises, and leaves a world behind in both cases.\<close>

type_synonym 'a io = "world \<Rightarrow> (error + 'a) \<times> world"

definition io_return :: "'a \<Rightarrow> 'a io" where
  "io_return x w = (Inr x, w)"

definition io_bind :: "'a io \<Rightarrow> ('a \<Rightarrow> 'b io) \<Rightarrow> 'b io" where
  "io_bind m f w = (case m w of (Inl e, w') \<Rightarrow> (Inl e, w') | (Inr x, w') \<Rightarrow> f x w')"

definition io_then :: "unit io \<Rightarrow> 'b io \<Rightarrow> 'b io" where
  "io_then m k = io_bind m (\<lambda>_. k)"

subsection \<open>pathlib and shutil on the tree\<close>

fun lookup :: "node \<Rightarrow> path \<Rightarrow> node option" where
  "lookup n [] = Some n"
| "lookup (File c) (x # p) = None"
| "lookup (Dir wr es) (x # p) = (case map_of es x of None \<Rightarrow> None | Some n \<Rightarrow> lookup n p)"

text \<open>\<^verbatim>\<open>Path.exists()\<close>, \<^verbatim>\<open>Path.is_file()\<close>, \<^verbatim>\<open>Path.is_dir()\<close>.\<close>

definition path_exists :: "path \<Rightarrow> world \<Rightarrow> bool" where
  "path_exists p w = (lookup (root w) p \<noteq> None)"

definition is_file :: "path \<Rightarrow> world \<Rightarrow> bool" where
  "is_file p w = (case lookup (root w) p of Some (File c) \<Rightarrow> True | _ \<Rightarrow> False)"

definition is_dir :: "path \<Rightarrow> world \<Rightarrow> bool" where
  "is_dir p w = (case lookup (root w) p of Some (Dir wr es) \<Rightarrow> True | _ \<Rightarrow> False)"

text \<open>\<^verbatim>\<open>Path.parent\<close> and \<^verbatim>\<open>Path.name\<close>; the root is its own parent and has the
  empty name.\<close>

definition parent :: "path \<Rightarrow> path" where
  "parent p = butlast p"

definition name :: "path \<Rightarrow> string" where
  "name p = (if p = [] then [] else last p)"

text \<open>
  A glob pattern is applied to the entries of one directory; it is represented by the
  names it selects. \<^verbatim>\<open>"*.md"\<close> selects the names that end in \<^verbatim>\<open>.md\<close>.
  \<^verbatim>\<open>Path.glob\<close> yields nothing on a path that is not a directory.
\<close>

type_synonym pattern = "string \<Rightarrow> bool"

definition md :: pattern where
  "md x = (3 \<le> length x \<and> drop (length x - 3) x = ''.md'')"

definition glob :: "path \<Rightarrow> pattern \<Rightarrow> world \<Rightarrow> path list" where
  "glob d pat w =
     (case lookup (root w) d of
        Some (Dir wr es) \<Rightarrow> map (\<lambda>x. d @ [x]) (filter pat (map fst es))
      | _ \<Rightarrow> [])"

text \<open>\<^verbatim>\<open>Path.iterdir()\<close> raises on a path that is not a directory.\<close>

definition iterdir :: "path \<Rightarrow> path list io" where
  "iterdir d w =
     (case lookup (root w) d of
        Some (Dir wr es) \<Rightarrow> (Inr (map (\<lambda>x. d @ [x]) (map fst es)), w)
      | Some (File c) \<Rightarrow> (Inl NotADirectoryError, w)
      | None \<Rightarrow> (Inl FileNotFoundError, w))"

text \<open>
  \<^verbatim>\<open>Path.mkdir(parents=True, exist_ok=True)\<close>, walking down from a node: an existing
  directory is kept, a missing one is created (writable and empty) where the directory
  above allows it, and a regular file on the way is an error.
\<close>

fun mkdir_p :: "node \<Rightarrow> path \<Rightarrow> error + node" where
  "mkdir_p (Dir wr es) [] = Inr (Dir wr es)"
| "mkdir_p (File c) [] = Inl FileExistsError"
| "mkdir_p (File c) (x # p) = Inl NotADirectoryError"
| "mkdir_p (Dir wr es) (x # p) =
     (case map_of es x of
        Some n \<Rightarrow>
          (case mkdir_p n p of
             Inl e \<Rightarrow> Inl e
           | Inr n' \<Rightarrow> Inr (Dir wr (AList.update x n' es)))
      | None \<Rightarrow>
          if wr then
            (case mkdir_p (Dir True []) p of
               Inl e \<Rightarrow> Inl e
             | Inr n' \<Rightarrow> Inr (Dir wr (es @ [(x, n')])))
          else Inl PermissionError)"

definition mkdir :: "path \<Rightarrow> unit io" where
  "mkdir p w =
     (case mkdir_p (root w) p of
        Inl e \<Rightarrow> (Inl e, w)
      | Inr r \<Rightarrow> (Inr (), w\<lparr>root := r\<rparr>))"

text \<open>
  Opening a path for writing: an existing regular file is overwritten, a new entry
  needs a writable directory, and the directories above must exist.
\<close>

fun write_file :: "node \<Rightarrow> path \<Rightarrow> string \<Rightarrow> error + node" where
  "write_file (File c0) [] c = Inr (File c)"
| "write_file (Dir wr es) [] c = Inl IsADirectoryError"
| "write_file (File c0) (x # p) c = Inl NotADirectoryError"
| "write_file (Dir wr es) (x # p) c =
     (case map_of es x of
        Some n \<Rightarrow>
          (case write_file n p c of
             Inl e \<Rightarrow> Inl e
           | Inr n' \<Rightarrow> Inr (Dir wr (AList.update x n' es)))
      | None \<Rightarrow>
          if p \<noteq> [] then Inl FileNotFoundError
          else if wr then Inr (Dir wr (es @ [(x, File c)]))
          else Inl PermissionError)"

text \<open>
  \<^verbatim>\<open>shutil.copy2(src, dst)\<close>: a destination that is a directory receives the file
  under the source's name; copying a file onto itself raises.
\<close>

definition copy2 :: "path \<Rightarrow> path \<Rightarrow> unit io" where
  "copy2 src dst w =
     (let dst' = (if is_dir dst w then dst @ [name src] else dst) in
      case lookup (root w) src of
        None \<Rightarrow> (Inl FileNotFoundError, w)
      | Some n \<Rightarrow>
          if src = dst' then (Inl SameFileError, w)
          else
            (case n of
               Dir wr es \<Rightarrow> (Inl IsADirectoryError, w)
             | File c \<Rightarrow>
                 (case write_file (root w) dst' c of
                    Inl e \<Rightarrow> (Inl e, w)
                  | Inr r \<Rightarrow> (Inr (), w\<lparr>root := r\<rparr>))))"

text \<open>Replacing the node at an existing path.\<close>

fun put_node :: "node \<Rightarrow> path \<Rightarrow> node \<Rightarrow> node" where
  "put_node n [] m = m"
| "put_node (File c) (x # p) m = File c"
| "put_node (Dir wr es) (x # p) m =
     (case map_of es x of
        None \<Rightarrow> Dir wr es
      | Some n \<Rightarrow> Dir wr (AList.update x (put_node n p m) es))"

text \<open>
  \<^verbatim>\<open>shutil.copytree(src, dst)\<close>: the source is listed first, the destination is made
  with \<^verbatim>\<open>os.makedirs\<close> and must not exist, then the whole tree below the source is
  copied, and the destination receives the source's permissions.
\<close>

definition copytree :: "path \<Rightarrow> path \<Rightarrow> unit io" where
  "copytree src dst w =
     (case lookup (root w) src of
        None \<Rightarrow> (Inl FileNotFoundError, w)
      | Some (File c) \<Rightarrow> (Inl NotADirectoryError, w)
      | Some (Dir wr es) \<Rightarrow>
          if path_exists dst w then (Inl FileExistsError, w)
          else
            (case mkdir_p (root w) dst of
               Inl e \<Rightarrow> (Inl e, w)
             | Inr r \<Rightarrow> (Inr (), w\<lparr>root := put_node r dst (Dir wr es)\<rparr>)))"

subsection \<open>Formatting\<close>

definition digit_char :: "nat \<Rightarrow> char" where
  "digit_char d = ''0123456789'' ! (d mod 10)"

function show_nat :: "nat \<Rightarrow> string" where
  "show_nat n = (if n < 10 then [digit_char n] else show_nat (n div 10) @ [digit_char n])"
  by pat_completeness auto
termination
  by (relation "measure (\<lambda>n. n)") auto

declare show_nat.simps [simp del]

text \<open>Zero-padding to a width, as \<^verbatim>\<open>%02d\<close> does.\<close>

definition zpad :: "nat \<Rightarrow> nat \<Rightarrow> string" where
  "zpad k n = replicate (k - length (show_nat n)) CHR ''0'' @ show_nat n"

text \<open>\<^verbatim>\<open>strftime("%Y%m%d-%H%M%S")\<close>.\<close>

definition strftime :: "datetime \<Rightarrow> string" where
  "strftime t =
     zpad 4 (year t) @ zpad 2 (month t) @ zpad 2 (day t) @ ''-'' @
     zpad 2 (hour t) @ zpad 2 (minute t) @ zpad 2 (second t)"

text \<open>\<^verbatim>\<open>str(path)\<close> of an absolute path.\<close>

definition path_str :: "path \<Rightarrow> string" where
  "path_str p = (if p = [] then ''/'' else concat (map (\<lambda>x. ''/'' @ x) p))"

definition emit :: "msg \<Rightarrow> unit io" where
  "emit m w = (Inr (), w\<lparr>console := console w @ [m]\<rparr>)"

definition show_info :: "string \<Rightarrow> unit io" where
  "show_info s = emit (Info s)"

definition show_success :: "string \<Rightarrow> unit io" where
  "show_success s = emit (Success s)"

definition show_warning :: "string \<Rightarrow> unit io" where
  "show_warning s = emit (Warning s)"

subsection \<open>constants.py\<close>

definition AGENT_DIRS :: "path \<Rightarrow> (string \<times> path) list" where
  "AGENT_DIRS h =
     [(''claude-code'', h @ [''.claude'', ''commands'']),
      (''opencode'', h @ [''.config'', ''opencode'', ''commands'']),
      (''droid'', h @ [''.factory'', ''commands''])]"

definition AGENT_AGENT_DIRS :: "path \<Rightarrow> (string \<times> path) list" where
  "AGENT_AGENT_DIRS h =
     [(''claude-code'', h @ [''.claude'', ''agents'']),
      (''opencode'', h @ [''.config'', ''opencode'', ''agent'']),
      (''droid'', h @ [''.factory'', ''agents''])]"

definition AGENT_RULES_DIRS :: "path \<Rightarrow> (string \<times> path) list" where
  "AGENT_RULES_DIRS h =
     [(''claude-code'', h @ [''.claude'', ''rules'']),
      (''opencode'', h @ [''.config'', ''opencode'', ''rules'']),
      (''droid'', h @ [''.factory'', ''rules''])]"

text \<open>Subscripting a dict raises \<^verbatim>\<open>KeyError\<close> on a missing key.\<close>

definition getitem :: "(string \<times> 'a) list \<Rightarrow> string \<Rightarrow> 'a io" where
  "getitem d k w = (case map_of d k of None \<Rightarrow> (Inl (KeyError k), w) | Some v \<Rightarrow> (Inr v, w))"

text \<open>\<^verbatim>\<open>validate_agent\<close> of \<^verbatim>\<open>detection.py\<close>.\<close>

definition validate_agent :: "string \<Rightarrow> bool" where
  "validate_agent agent = (agent \<in> fst ` set (AGENT_DIRS []))"

subsection \<open>installer.py\<close>

record InstallationResult =
  commands_installed :: nat
  agents_installed :: nat
  rules_installed :: nat
  success :: bool
  errors :: "string list"

definition get_script_dir :: "world \<Rightarrow> path" where
  "get_script_dir w = cwd w"

definition get_source_dirs :: "world \<Rightarrow> path \<times> path \<times> path" where
  "get_source_dirs w =
     (let script_dir = get_script_dir w in
      (script_dir @ [''commands''], script_dir @ [''agents''], script_dir @ [''rules'']))"

definition count_files :: "string \<Rightarrow> (nat \<times> nat \<times> nat \<times> nat) io" where
  "count_files language w =
     (let (commands_dir, agents_dir, rules_dir) = get_source_dirs w;
          command_count =
            (if path_exists commands_dir w then length (glob commands_dir md w) else 0);
          shared_agent_dir = agents_dir @ [''shared''];
          shared_agent_count =
            (if path_exists shared_agent_dir w then length (glob shared_agent_dir md w) else 0);
          lang_agent_dir = agents_dir @ [language];
          lang_agent_count =
            (if path_exists lang_agent_dir w then length (glob lang_agent_dir md w) else 0);
          rule_count =
            (if path_exists rules_dir w then length (glob rules_dir md w) else 0)
      in (Inr (command_count, shared_agent_count, lang_agent_count, rule_count), w))"

definition backup_existing_files :: "path \<Rightarrow> path option io" where
  "backup_existing_files target_dir w =
     (if \<not> path_exists target_dir w then (Inr None, w)
      else
        (case iterdir target_dir w of
           (Inl e, w') \<Rightarrow> (Inl e, w')
         | (Inr entries, w') \<Rightarrow>
             if entries = [] then (Inr None, w')
             else
               (let timestamp = strftime (now w');
                    backup_dir = parent target_dir @ [name target_dir @ ''.backup.'' @ timestamp]
                in io_then (copytree target_dir backup_dir) (io_return (Some backup_dir)) w')))"

text \<open>The loop of \<^verbatim>\<open>copy_files\<close> over the paths the glob has yielded.\<close>

fun copy_loop :: "path \<Rightarrow> path list \<Rightarrow> nat \<Rightarrow> nat io" where
  "copy_loop target_dir [] count w = (Inr count, w)"
| "copy_loop target_dir (file # files) count w =
     (if is_file file w then
        (case copy2 file (target_dir @ [name file]) w of
           (Inl e, w') \<Rightarrow> (Inl e, w')
         | (Inr u, w') \<Rightarrow> copy_loop target_dir files (count + 1) w')
      else copy_loop target_dir files count w)"

definition copy_files :: "path \<Rightarrow> path \<Rightarrow> pattern \<Rightarrow> nat io" where
  "copy_files source_dir target_dir pat w =
     (if \<not> path_exists source_dir w then (Inr 0, w)
      else
        (case mkdir target_dir w of
           (Inl e, w') \<Rightarrow> (Inl e, w')
         | (Inr u, w') \<Rightarrow> copy_loop target_dir (glob source_dir pat w') 0 w'))"

text \<open>
  \<^verbatim>\<open>install_to_agent\<close>, section by section as the source's comments divide it. The
  language is one path component, as every supported language is.
\<close>

definition create_directories :: "path \<Rightarrow> path \<Rightarrow> path \<Rightarrow> unit io" where
  "create_directories commands_target agents_target rules_target =
     io_then (mkdir commands_target)
    (io_then (mkdir agents_target)
    (io_then (mkdir rules_target)
    (io_then (show_info (''Commands: '' @ path_str commands_target))
    (io_then (show_info (''Agents: '' @ path_str agents_target))
             (show_info (''Rules: '' @ path_str rules_target))))))"

definition backup_commands :: "path \<Rightarrow> unit io" where
  "backup_commands commands_target =
     io_bind (backup_existing_files commands_target) (\<lambda>backup_dir.
       case backup_dir of
         None \<Rightarrow> io_return ()
       | Some b \<Rightarrow> show_info (''Backup saved to: '' @ path_str b))"

definition copy_commands :: "path \<Rightarrow> path \<Rightarrow> nat io" where
  "copy_commands commands_dir commands_target =
     io_bind (copy_files commands_dir commands_target md) (\<lambda>commands_installed.
     io_then (show_success (''Copied '' @ show_nat commands_installed @ '' command files''))
             (io_return commands_installed))"

definition copy_shared_agents :: "path \<Rightarrow> path \<Rightarrow> nat \<Rightarrow> nat io" where
  "copy_shared_agents agents_dir agents_target installed w =
     (let shared_agent_dir = agents_dir @ [''shared''] in
      if path_exists shared_agent_dir w then
        io_bind (copy_files shared_agent_dir agents_target md) (\<lambda>shared_count.
        io_then (show_success (''Copied '' @ show_nat shared_count @ '' shared agents''))
                (io_return (installed + shared_count))) w
      else (Inr installed, w))"

definition copy_language_agents :: "path \<Rightarrow> path \<Rightarrow> string \<Rightarrow> nat \<Rightarrow> nat io" where
  "copy_language_agents agents_dir agents_target language installed w =
     (let lang_agent_dir = agents_dir @ [language] in
      if path_exists lang_agent_dir w then
        io_bind (copy_files lang_agent_dir agents_target md) (\<lambda>lang_count.
        io_then (show_success (''Copied '' @ show_nat lang_count @ '' '' @ language @ '' agents''))
                (io_return (installed + lang_count))) w
      else (Inr installed, w))"

definition copy_registry :: "path \<Rightarrow> path \<Rightarrow> unit io" where
  "copy_registry agents_dir agents_target w =
     (let registry_file = agents_dir @ [''index.json''] in
      if path_exists registry_file w then
        io_then (copy2 registry_file (agents_target @ [''index.json'']))
                (show_success ''Copied agent registry (index.json)'') w
      else (Inr (), w))"

definition copy_agents :: "path \<Rightarrow> path \<Rightarrow> string \<Rightarrow> nat io" where
  "copy_agents agents_dir agents_target language =
     io_bind (copy_shared_agents agents_dir agents_target 0) (\<lambda>agents_installed.
     io_bind (copy_language_agents agents_dir agents_target language agents_installed)
       (\<lambda>agents_installed.
     io_then (copy_registry agents_dir agents_target)
             (io_return agents_installed)))"

definition copy_rules :: "path \<Rightarrow> path \<Rightarrow> nat io" where
  "copy_rules rules_dir rules_target =
     io_bind (copy_files rules_dir rules_target md) (\<lambda>rules_installed.
     io_then (show_success (''Copied '' @ show_nat rules_installed @ '' rule files''))
             (io_return rules_installed))"

definition verify_count :: "string \<Rightarrow> nat \<Rightarrow> nat \<Rightarrow> unit io" where
  "verify_count category expected installed =
     (if installed \<noteq> expected then
        show_warning (category @ '': Expected '' @ show_nat expected @
                      '' files, but installed '' @ show_nat installed)
      else show_success (category @ '' installation verified''))"

definition verify_installation :: "string \<Rightarrow> nat \<Rightarrow> nat \<Rightarrow> nat \<Rightarrow> unit io" where
  "verify_installation language commands_done agents_done rules_done =
     io_bind (count_files language)
       (\<lambda>(command_count, shared_agent_count, lang_agent_count, rule_count).
          let total_agent_count = shared_agent_count + lang_agent_count in
          io_then (verify_count ''Commands'' command_count commands_done)
         (io_then (verify_count ''Agents'' total_agent_count agents_done)
                  (verify_count ''Rules'' rule_count rules_done)))"

definition install_to_agent :: "string \<Rightarrow> string \<Rightarrow> InstallationResult io" where
  "install_to_agent agent language w =
     (let errors = [] in
      io_bind (getitem (AGENT_DIRS (home w)) agent) (\<lambda>commands_target.
      io_bind (getitem (AGENT_AGENT_DIRS (home w)) agent) (\<lambda>agents_target.
      io_bind (getitem (AGENT_RULES_DIRS (home w)) agent) (\<lambda>rules_target.
        let (commands_dir, agents_dir, rules_dir) = get_source_dirs w in
        if \<not> path_exists commands_dir w then
          (let errors = errors @ [''Commands directory not found: '' @ path_str commands_dir]
           in io_return \<lparr>commands_installed = 0, agents_installed = 0, rules_installed = 0,
                         success = False, errors = errors\<rparr>)
        else
          io_then (create_directories commands_target agents_target rules_target)
         (io_then (backup_commands commands_target)
         (io_bind (copy_commands commands_dir commands_target) (\<lambda>commands_installed.
          io_bind (copy_agents agents_dir agents_target language) (\<lambda>agents_installed.
          io_bind (copy_rules rules_dir rules_target) (\<lambda>rules_installed.
          io_then (verify_installation language commands_installed agents_installed
                     rules_installed)
                  (io_return \<lparr>commands_installed = commands_installed,
                               agents_installed = agents_installed,
                               rules_installed = rules_installed,
                               success = (length errors = 0), errors = errors\<rparr>)))))))))
      w)"

subsection \<open>The installation loop of cli.py\<close>




subsection \<open>Reading a directory tree\<close>

text \<open>
  Three readings of a tree that the properties below are stated with: the names of the
  regular files among a directory's entries that a pattern selects, the permission flag
  of a directory (and nothing for a file or a missing path), and the regular files of a
  directory that \<^verbatim>\<open>copy_files\<close> copies: those the glob yields and \<^verbatim>\<open>is_file\<close> accepts.
\<close>

fun node_files :: "pattern \<Rightarrow> node option \<Rightarrow> string list" where
  "node_files pat (Some (Dir wr es)) =
     filter (\<lambda>x. pat x \<and> (case map_of es x of Some (File c) \<Rightarrow> True | _ \<Rightarrow> False)) (map fst es)"
| "node_files pat (Some (File c)) = []"
| "node_files pat None = []"

fun dir_flag :: "node option \<Rightarrow> bool option" where
  "dir_flag (Some (Dir wr es)) = Some wr"
| "dir_flag (Some (File c)) = None"
| "dir_flag None = None"

definition files_in :: "path \<Rightarrow> pattern \<Rightarrow> world \<Rightarrow> path list" where
  "files_in d pat w = filter (\<lambda>f. is_file f w) (glob d pat w)"

text \<open>
  A target directory is vacant when it is an empty writable directory, or is missing
  under a writable directory so that it can be created. A target is flat when it is a
  writable directory without subdirectories. Two worlds are framed by a set of target
  directories when they agree on everything but the regular files directly inside those
  targets (and the console).
\<close>

fun vacant :: "node \<Rightarrow> path \<Rightarrow> bool" where
  "vacant (Dir wr es) [] = (wr \<and> es = [])"
| "vacant (File c) p = False"
| "vacant (Dir wr es) (x # p) = (case map_of es x of Some n \<Rightarrow> vacant n p | None \<Rightarrow> wr)"

definition frame :: "path set \<Rightarrow> world \<Rightarrow> world \<Rightarrow> bool" where
  "frame T w w' \<longleftrightarrow>
     cwd w' = cwd w \<and> home w' = home w \<and> now w' = now w
     \<and> (\<forall>p. dir_flag (lookup (root w') p) = dir_flag (lookup (root w) p))
     \<and> (\<forall>d pat. d \<notin> T \<longrightarrow>
           node_files pat (lookup (root w') d) = node_files pat (lookup (root w) d))
     \<and> (\<forall>d x c. d \<notin> T \<longrightarrow>
           (lookup (root w') (d @ [x]) = Some (File c)) = (lookup (root w) (d @ [x]) = Some (File c)))"

definition flat :: "path \<Rightarrow> world \<Rightarrow> bool" where
  "flat t w \<longleftrightarrow>
     dir_flag (lookup (root w) t) = Some True \<and> (\<forall>x. dir_flag (lookup (root w) (t @ [x])) = None)"

subsection \<open>Worlds to run the installer in\<close>

definition example_time :: datetime where
  "example_time = \<lparr>year = 2025, month = 3, day = 7, hour = 9, minute = 5, second = 42\<rparr>"

text \<open>A checkout with five commands, three shared agents, four python agents, two rules
  and the registry.\<close>

definition catalog :: node where
  "catalog = Dir True
     [(''commands'', Dir True
         [(''plan.md'', File ''plan''), (''spec.md'', File ''spec''),
          (''build.md'', File ''build''), (''test.md'', File ''test''),
          (''ship.md'', File ''ship''), (''README.txt'', File ''notes'')]),
      (''agents'', Dir True
         [(''shared'', Dir True
             [(''review.md'', File ''review''), (''docs.md'', File ''docs''),
              (''secrets.md'', File ''secrets'')]),
          (''python'', Dir True
             [(''types.md'', File ''types''), (''tests.md'', File ''tests''),
              (''docstrings.md'', File ''docstrings''), (''imports.md'', File ''imports'')]),
          (''index.json'', File ''{}'')]),
      (''rules'', Dir True
         [(''style.md'', File ''style''), (''safety.md'', File ''safety'')])]"

text \<open>The checkout at \<^verbatim>\<open>/work/sage-dev\<close>, and a home directory with nothing in it.\<close>

definition fresh_world :: world where
  "fresh_world =
     \<lparr>root = Dir True
        [(''work'', Dir True [(''sage-dev'', catalog)]),
         (''home'', Dir True [(''user'', Dir True [])])],
      cwd = [''work'', ''sage-dev''], home = [''home'', ''user''],
      now = example_time, console = []\<rparr>"

text \<open>The same home directory, run from a directory that holds no checkout.\<close>

definition bare_world :: world where
  "bare_world =
     \<lparr>root = Dir True
        [(''work'', Dir True []),
         (''home'', Dir True [(''user'', Dir True [])])],
      cwd = [''work''], home = [''home'', ''user''],
      now = example_time, console = []\<rparr>"

text \<open>A checkout where \<^verbatim>\<open>commands/\<close> holds one command and a directory whose name
  ends in \<^verbatim>\<open>.md\<close>: the glob counts both, the copy takes the file only.\<close>

definition mismatch_world :: world where
  "mismatch_world =
     \<lparr>root = Dir True
        [(''work'', Dir True [(''sage-dev'', Dir True
           [(''commands'', Dir True [(''plan.md'', File ''plan''), (''drafts.md'', Dir True [])]),
            (''rules'', Dir True [(''style.md'', File ''style'')])])]),
         (''home'', Dir True [(''user'', Dir True [])])],
      cwd = [''work'', ''sage-dev''], home = [''home'', ''user''],
      now = example_time, console = []\<rparr>"

text \<open>A home directory whose Claude Code commands directory is already in use: it holds
  an older \<^verbatim>\<open>plan.md\<close> and a command of the user's own.\<close>

definition used_world :: world where
  "used_world =
     \<lparr>root = Dir True
        [(''work'', Dir True [(''sage-dev'', catalog)]),
         (''home'', Dir True [(''user'', Dir True [(''.claude'', Dir True
            [(''commands'', Dir True
                [(''plan.md'', File ''old plan''), (''mine.md'', File ''mine'')])])])])],
      cwd = [''work'', ''sage-dev''], home = [''home'', ''user''],
      now = example_time, console = []\<rparr>"



section \<open>Properties\<close>

subsection \<open>Sequencing\<close>

lemma io_bind_Inr:
  "io_bind m f w = (Inr r, w') \<longleftrightarrow> (\<exists>x w1. m w = (Inr x, w1) \<and> f x w1 = (Inr r, w'))"
  by (auto simp: io_bind_def split: prod.splits sum.splits)

lemma io_bind_Inl:
  "io_bind m f w = (Inl e, w') \<longleftrightarrow>
     (m w = (Inl e, w') \<or> (\<exists>x w1. m w = (Inr x, w1) \<and> f x w1 = (Inl e, w')))"
  by (auto simp: io_bind_def split: prod.splits sum.splits)

lemma io_then_Inr:
  "io_then m k w = (Inr r, w') \<longleftrightarrow> (\<exists>w1. m w = (Inr (), w1) \<and> k w1 = (Inr r, w'))"
  by (simp add: io_then_def io_bind_Inr)

lemma io_then_Inl:
  "io_then m k w = (Inl e, w') \<longleftrightarrow>
     (m w = (Inl e, w') \<or> (\<exists>w1. m w = (Inr (), w1) \<and> k w1 = (Inl e, w')))"
  by (simp add: io_then_def io_bind_Inl)

subsection \<open>Directory trees\<close>

lemma lookup_append:
  "lookup n (p @ q) = (case lookup n p of None \<Rightarrow> None | Some m \<Rightarrow> lookup m q)"
  by (induction n p rule: lookup.induct) (auto split: option.splits)

lemma lookup_Dir_Cons:
  "lookup (Dir wr es) (x # p) = (case map_of es x of None \<Rightarrow> None | Some n \<Rightarrow> lookup n p)"
  by simp

lemma lookup_empty_dir: "lookup (Dir wr []) p = (if p = [] then Some (Dir wr []) else None)"
  by (cases p) auto

lemma mkdir_p_shape:
  "mkdir_p n q = Inr n' \<Longrightarrow> \<exists>wr es es'. n = Dir wr es \<and> n' = Dir wr es'"
  by (cases n; cases q) (auto split: option.splits sum.splits if_splits)

lemma map_of_snoc:
  "map_of es x = None \<Longrightarrow> map_of (es @ [(x, v)]) y = (if y = x then Some v else map_of es y)"
  by (auto simp: map_add_def split: option.splits)

lemma lookup_snoc:
  "map_of es x = None \<Longrightarrow>
     lookup (Dir wr (es @ [(x, v)])) (y # r) =
       (if y = x then lookup v r else lookup (Dir wr es) (y # r))"
  by (simp add: map_of_snoc del: map_of_append)

lemma lookup_update:
  "lookup (Dir wr (AList.update x v es)) (y # r) =
     (if y = x then lookup v r else lookup (Dir wr es) (y # r))"
  by (simp add: update_conv')

lemma mkdir_p_files:
  "mkdir_p n q = Inr n' \<Longrightarrow> (lookup n' p = Some (File c)) = (lookup n p = Some (File c))"
proof (induction n q arbitrary: n' p rule: mkdir_p.induct)
  case (4 wr es x q)
  show ?case
  proof (cases "map_of es x")
    case None
    with "4.prems" obtain m' where wr: wr and m': "mkdir_p (Dir True []) q = Inr m'"
      and n': "n' = Dir wr (es @ [(x, m')])"
      by (auto split: sum.splits if_splits)
    have new: "lookup m' r \<noteq> Some (File c)" for r
      using "4.IH"(1) [OF None wr m', of r] by (simp add: lookup_empty_dir)
    show ?thesis
    proof (cases p)
      case Nil
      then show ?thesis by (simp add: n')
    next
      case (Cons y r)
      then show ?thesis
        using None new by (simp add: n' lookup_snoc del: lookup.simps) auto
    qed
  next
    case (Some m)
    with "4.prems" obtain m' where m': "mkdir_p m q = Inr m'"
      and n': "n' = Dir wr (AList.update x m' es)"
      by (auto split: sum.splits)
    show ?thesis
    proof (cases p)
      case Nil
      then show ?thesis by (simp add: n')
    next
      case (Cons y r)
      then show ?thesis
        using Some "4.IH"(2) [OF Some m', of r] by (simp add: n' lookup_update del: lookup.simps) auto
    qed
  qed
qed auto


lemma write_file_shape:
  "write_file n q c = Inr n' \<Longrightarrow>
     (q = [] \<and> (\<exists>c0. n = File c0) \<and> n' = File c) \<or>
     (q \<noteq> [] \<and> (\<exists>wr es es'. n = Dir wr es \<and> n' = Dir wr es'))"
  by (cases n; cases q) (auto split: option.splits sum.splits if_splits)

lemma mkdir_p_dir_flag:
  "mkdir_p n q = Inr n' \<Longrightarrow> dir_flag (lookup n p) = Some wr \<Longrightarrow> dir_flag (lookup n' p) = Some wr"
proof (induction n q arbitrary: n' p rule: mkdir_p.induct)
  case (4 wr0 es x q)
  show ?case
  proof (cases p)
    case Nil
    with "4.prems" show ?thesis
      by (auto split: option.splits sum.splits if_splits)
  next
    case (Cons y r)
    show ?thesis
    proof (cases "map_of es x")
      case None
      with "4.prems" obtain m' where n': "n' = Dir wr0 (es @ [(x, m')])"
        by (auto split: sum.splits if_splits)
      from "4.prems"(2) None Cons show ?thesis
        by (simp add: n' lookup_snoc del: lookup.simps) auto
    next
      case (Some m)
      with "4.prems" obtain m' where m': "mkdir_p m q = Inr m'"
        and n': "n' = Dir wr0 (AList.update x m' es)"
        by (auto split: sum.splits)
      from "4.prems"(2) Some Cons "4.IH"(2) [OF Some m', of r] show ?thesis
        by (simp add: n' lookup_update del: lookup.simps) auto
    qed
  qed
qed auto

lemma mkdir_p_result:
  "mkdir_p n q = Inr n' \<Longrightarrow> dir_flag (lookup n' q) \<noteq> None"
proof (induction n q arbitrary: n' rule: mkdir_p.induct)
  case (4 wr es x q)
  show ?case
  proof (cases "map_of es x")
    case None
    with "4.prems" obtain m' where wr: wr and m': "mkdir_p (Dir True []) q = Inr m'"
      and n': "n' = Dir wr (es @ [(x, m')])"
      by (auto split: sum.splits if_splits)
    from "4.IH"(1) [OF None wr m'] None show ?thesis
      by (simp add: n' lookup_snoc del: lookup.simps)
  next
    case (Some m)
    with "4.prems" obtain m' where m': "mkdir_p m q = Inr m'"
      and n': "n' = Dir wr (AList.update x m' es)"
      by (auto split: sum.splits)
    from "4.IH"(2) [OF Some m'] show ?thesis
      by (simp add: n' lookup_update del: lookup.simps)
  qed
qed auto

lemma mkdir_p_existing:
  "dir_flag (lookup n q) \<noteq> None \<Longrightarrow> mkdir_p n q = Inr n"
proof (induction n q rule: mkdir_p.induct)
  case (4 wr es x q)
  then show ?case
    by (auto split: option.splits simp: update_triv)
qed auto

lemma mkdir_p_frame:
  "mkdir_p n q = Inr n' \<Longrightarrow> \<not> prefix p q \<Longrightarrow> lookup n' p = lookup n p"
proof (induction n q arbitrary: n' p rule: mkdir_p.induct)
  case (4 wr es x q)
  from "4.prems"(2) obtain y r where p: "p = y # r"
    by (cases p) auto
  show ?case
  proof (cases "map_of es x")
    case None
    with "4.prems" obtain m' where wr: wr and m': "mkdir_p (Dir True []) q = Inr m'"
      and n': "n' = Dir wr (es @ [(x, m')])"
      by (auto split: sum.splits if_splits)
    show ?thesis
    proof (cases "y = x")
      case True
      with "4.prems"(2) p have r: "\<not> prefix r q" "r \<noteq> []"
        by auto
      from "4.IH"(1) [OF None wr m' r(1)] r(2) None True show ?thesis
        by (simp add: p n' lookup_snoc lookup_empty_dir del: lookup.simps) simp
    next
      case False
      with None show ?thesis
        by (simp add: p n' lookup_snoc del: lookup.simps)
    qed
  next
    case (Some m)
    with "4.prems" obtain m' where m': "mkdir_p m q = Inr m'"
      and n': "n' = Dir wr (AList.update x m' es)"
      by (auto split: sum.splits)
    show ?thesis
    proof (cases "y = x")
      case True
      with "4.prems"(2) p have r: "\<not> prefix r q"
        by auto
      from "4.IH"(2) [OF Some m' r] Some True show ?thesis
        by (simp add: p n' lookup_update del: lookup.simps) simp
    next
      case False
      then show ?thesis
        by (simp add: p n' lookup_update del: lookup.simps)
    qed
  qed
qed auto


lemma node_files_update:
  assumes "map_of es x = Some m" and "dir_flag (Some m) \<noteq> None" and "dir_flag (Some m') \<noteq> None"
  shows "node_files pat (Some (Dir wr (AList.update x m' es))) = node_files pat (Some (Dir wr es))"
proof -
  have keys: "map fst (AList.update x v es) = map fst es" for v
    using assms(1) by (simp add: update_keys weak_map_of_SomeI image_iff) (metis fst_conv map_of_SomeD)
  obtain a b a' b' where "m = Dir a b" "m' = Dir a' b'"
    using assms(2,3) by (cases m; cases m') auto
  then show ?thesis
    using assms(1) by (auto simp: keys update_conv' intro!: filter_cong)
qed

lemma node_files_snoc:
  assumes "map_of es x = None" and "dir_flag (Some m') \<noteq> None"
  shows "node_files pat (Some (Dir wr (es @ [(x, m')]))) = node_files pat (Some (Dir wr es))"
proof -
  obtain a' b' where "m' = Dir a' b'"
    using assms(2) by (cases m') auto
  moreover have "x \<notin> fst ` set es"
    using assms(1) by (simp add: map_of_eq_None_iff)
  ultimately show ?thesis
    using assms(1) by (auto simp: map_add_def intro!: filter_cong split: option.splits)
qed

lemma mkdir_p_node_files:
  "mkdir_p n q = Inr n' \<Longrightarrow> node_files pat (lookup n' d) = node_files pat (lookup n d)"
proof (induction n q arbitrary: n' d rule: mkdir_p.induct)
  case (4 wr es x q)
  show ?case
  proof (cases "map_of es x")
    case None
    with "4.prems" obtain m' where wr: wr and m': "mkdir_p (Dir True []) q = Inr m'"
      and n': "n' = Dir wr (es @ [(x, m')])"
      by (auto split: sum.splits if_splits)
    have dm': "dir_flag (Some m') \<noteq> None"
      using mkdir_p_shape [OF m'] by auto
    show ?thesis
    proof (cases d)
      case Nil
      then show ?thesis
        using node_files_snoc [OF None dm'] by (simp add: n')
    next
      case (Cons y r)
      from "4.IH"(1) [OF None wr m', of r] None show ?thesis
        by (simp add: Cons n' lookup_snoc lookup_empty_dir del: lookup.simps) simp
    qed
  next
    case (Some m)
    with "4.prems" obtain m' where m': "mkdir_p m q = Inr m'"
      and n': "n' = Dir wr (AList.update x m' es)"
      by (auto split: sum.splits)
    have dm: "dir_flag (Some m) \<noteq> None" "dir_flag (Some m') \<noteq> None"
      using mkdir_p_shape [OF m'] by auto
    show ?thesis
    proof (cases d)
      case Nil
      then show ?thesis
        using node_files_update [OF Some dm] by (simp add: n')
    next
      case (Cons y r)
      from "4.IH"(2) [OF Some m', of r] Some show ?thesis
        by (simp add: Cons n' lookup_update del: lookup.simps) simp
    qed
  qed
qed auto


lemma write_file_result:
  "write_file n q c = Inr n' \<Longrightarrow> lookup n' q = Some (File c)"
proof (induction n q c arbitrary: n' rule: write_file.induct)
  case (4 wr es x q c)
  show ?case
  proof (cases "map_of es x")
    case None
    with "4.prems" have "q = []" and n': "n' = Dir wr (es @ [(x, File c)])"
      by (auto split: if_splits)
    with None show ?thesis
      by (simp add: lookup_snoc del: lookup.simps(3))
  next
    case (Some m)
    with "4.prems" obtain m' where m': "write_file m q c = Inr m'"
      and n': "n' = Dir wr (AList.update x m' es)"
      by (auto split: sum.splits)
    from "4.IH" [OF Some m'] show ?thesis
      by (simp add: n' lookup_update del: lookup.simps(3))
  qed
qed auto

lemma write_file_other:
  "write_file n q c = Inr n' \<Longrightarrow> p \<noteq> q \<Longrightarrow>
     (lookup n' p = Some (File d)) = (lookup n p = Some (File d))"
proof (induction n q c arbitrary: n' p rule: write_file.induct)
  case (1 c0 c)
  then show ?case by (cases p) auto
next
  case (4 wr es x q c)
  show ?case
  proof (cases p)
    case Nil
    with "4.prems" show ?thesis
      by (auto split: option.splits sum.splits if_splits)
  next
    case (Cons y r)
    show ?thesis
    proof (cases "map_of es x")
      case None
      with "4.prems" have q: "q = []" and n': "n' = Dir wr (es @ [(x, File c)])"
        by (auto split: if_splits)
      from "4.prems"(2) have "y = x \<Longrightarrow> r \<noteq> []"
        by (simp add: Cons q)
      then have "y = x \<Longrightarrow> lookup (File c) r = None"
        by (cases r) auto
      with None show ?thesis
        by (simp add: Cons n' lookup_snoc del: lookup.simps(3)) auto
    next
      case (Some m)
      with "4.prems" obtain m' where m': "write_file m q c = Inr m'"
        and n': "n' = Dir wr (AList.update x m' es)"
        by (auto split: sum.splits)
      show ?thesis
      proof (cases "y = x")
        case True
        with "4.prems"(2) Cons have "r \<noteq> q" by simp
        from "4.IH" [OF Some m' this] Some True show ?thesis
          by (simp add: Cons n' lookup_update del: lookup.simps(3)) simp
      next
        case False
        then show ?thesis
          by (simp add: Cons n' lookup_update del: lookup.simps(3))
      qed
    qed
  qed
qed auto

lemma write_file_dir_flag:
  "write_file n q c = Inr n' \<Longrightarrow> dir_flag (lookup n' p) = dir_flag (lookup n p)"
proof (induction n q c arbitrary: n' p rule: write_file.induct)
  case (1 c0 c)
  then show ?case by (cases p) auto
next
  case (4 wr es x q c)
  show ?case
  proof (cases p)
    case Nil
    with "4.prems" show ?thesis
      by (auto split: option.splits sum.splits if_splits)
  next
    case (Cons y r)
    show ?thesis
    proof (cases "map_of es x")
      case None
      with "4.prems" have q: "q = []" and n': "n' = Dir wr (es @ [(x, File c)])"
        by (auto split: if_splits)
      have "dir_flag (lookup (File c) r) = None"
        by (cases r) auto
      with None show ?thesis
        by (simp add: Cons n' lookup_snoc del: lookup.simps(3)) auto
    next
      case (Some m)
      with "4.prems" obtain m' where m': "write_file m q c = Inr m'"
        and n': "n' = Dir wr (AList.update x m' es)"
        by (auto split: sum.splits)
      from "4.IH" [OF Some m', of r] Some show ?thesis
        by (simp add: Cons n' lookup_update del: lookup.simps(3)) simp
    qed
  qed
qed auto


lemma write_file_node_files:
  "write_file n q c = Inr n' \<Longrightarrow> d \<noteq> butlast q \<Longrightarrow>
     node_files pat (lookup n' d) = node_files pat (lookup n d)"
proof (induction n q c arbitrary: n' d rule: write_file.induct)
  case (1 c0 c)
  then show ?case by (cases d) auto
next
  case (4 wr es x q c)
  show ?case
  proof (cases "map_of es x")
    case None
    with "4.prems" have q: "q = []" and n': "n' = Dir wr (es @ [(x, File c)])"
      by (auto split: if_splits)
    from "4.prems"(2) q obtain y r where d: "d = y # r"
      by (cases d) auto
    have "node_files pat (lookup (File c) r) = []"
      by (cases r) auto
    with None show ?thesis
      by (simp add: d n' lookup_snoc del: lookup.simps(3)) auto
  next
    case (Some m)
    with "4.prems" obtain m' where m': "write_file m q c = Inr m'"
      and n': "n' = Dir wr (AList.update x m' es)"
      by (auto split: sum.splits)
    show ?thesis
    proof (cases d)
      case Nil
      with "4.prems"(2) have "q \<noteq> []" by auto
      with write_file_shape [OF m'] have "dir_flag (Some m) \<noteq> None" "dir_flag (Some m') \<noteq> None"
        by auto
      from node_files_update [OF Some this] show ?thesis
        by (simp add: Nil n')
    next
      case (Cons y r)
      show ?thesis
      proof (cases "y = x")
        case False
        then show ?thesis
          by (simp add: Cons n' lookup_update del: lookup.simps(3))
      next
        case True
        show ?thesis
        proof (cases "q = []")
          case True
          with write_file_shape [OF m'] obtain c0 where "m = File c0" "m' = File c"
            by auto
          moreover have "node_files pat (lookup (File k) r) = []" for k
            by (cases r) auto
          ultimately show ?thesis
            using Some \<open>y = x\<close> by (simp add: Cons n' lookup_update del: lookup.simps(3)) simp
        next
          case False
          with "4.prems"(2) Cons \<open>y = x\<close> have "r \<noteq> butlast q"
            by simp
          from "4.IH" [OF Some m' this] Some \<open>y = x\<close> show ?thesis
            by (simp add: Cons n' lookup_update del: lookup.simps(3)) simp
        qed
      qed
    qed
  qed
qed auto

lemma write_file_success:
  "dir_flag (lookup n d) = Some True \<Longrightarrow> dir_flag (lookup n (d @ [x])) = None \<Longrightarrow>
     \<exists>n'. write_file n (d @ [x]) c = Inr n'"
proof (induction d arbitrary: n)
  case Nil
  then obtain es where n: "n = Dir True es"
    by (cases n) auto
  show ?case
  proof (cases "map_of es x")
    case None
    then show ?thesis by (simp add: n)
  next
    case (Some m)
    with Nil(2) obtain c0 where "m = File c0"
      by (cases m) (auto simp: n)
    with Some show ?thesis by (simp add: n)
  qed
next
  case (Cons y d)
  from Cons.prems(1) obtain wr es m where n: "n = Dir wr es" and m: "map_of es y = Some m"
    by (cases n) (auto split: option.splits)
  from Cons.prems have "dir_flag (lookup m d) = Some True" "dir_flag (lookup m (d @ [x])) = None"
    by (simp_all add: n m)
  from Cons.IH [OF this] obtain m' where "write_file m (d @ [x]) c = Inr m'"
    by blast
  then show ?case
    by (simp add: n m)
qed




subsection \<open>Copying files\<close>

lemma is_file_iff: "is_file p w \<longleftrightarrow> (\<exists>c. lookup (root w) p = Some (File c))"
  by (auto simp: is_file_def split: option.splits node.splits)

lemma is_dir_iff: "is_dir p w \<longleftrightarrow> dir_flag (lookup (root w) p) \<noteq> None"
  by (auto simp: is_dir_def split: option.splits node.splits)

lemma path_exists_iff: "path_exists p w \<longleftrightarrow> is_file p w \<or> is_dir p w"
  by (auto simp: path_exists_def is_file_def is_dir_def split: option.splits node.splits)

lemma files_in_node:
  "files_in d pat w = map (\<lambda>x. d @ [x]) (node_files pat (lookup (root w) d))"
proof (cases "lookup (root w) d")
  case None
  then show ?thesis by (simp add: files_in_def glob_def)
next
  case (Some m)
  show ?thesis
  proof (cases m)
    case (File c)
    with Some show ?thesis by (simp add: files_in_def glob_def)
  next
    case (Dir wr es)
    have "is_file (d @ [x]) w \<longleftrightarrow> (case map_of es x of Some (File c) \<Rightarrow> True | _ \<Rightarrow> False)" for x
      using Some Dir by (simp add: is_file_def lookup_append split: option.splits node.splits)
    with Some Dir show ?thesis
      by (simp add: files_in_def glob_def filter_map comp_def conj_commute)
  qed
qed

lemma glob_paths:
  "f \<in> set (glob src pat w) \<Longrightarrow> f \<noteq> [] \<and> butlast f = src"
  by (auto simp: glob_def split: option.splits node.splits)

lemma copy2_Inr:
  assumes "copy2 f d w = (Inr u, w')"
  obtains c q n' where "lookup (root w) f = Some (File c)"
    and "q = (if is_dir d w then d @ [name f] else d)"
    and "q \<noteq> f" and "write_file (root w) q c = Inr n'" and "w' = w\<lparr>root := n'\<rparr>"
  using assms
  by (auto simp: copy2_def Let_def split: option.splits node.splits sum.splits if_splits)

lemma source_path:
  assumes "f \<noteq> []" and "butlast f = src"
  shows "f = src @ [name f]"
  using assms by (simp add: name_def) (metis append_butlast_last_id)

lemma copy_loop_Inr:
  assumes "copy_loop tgt fs count w = (Inr n, w')"
    and "\<forall>f\<in>set fs. f \<noteq> [] \<and> butlast f = src"
  shows "n = count + length (filter (\<lambda>f. is_file f w) fs)
    \<and> (\<forall>f\<in>set fs. is_file f w \<longrightarrow> \<not> is_dir (tgt @ [name f]) w \<longrightarrow>
          lookup (root w') (tgt @ [name f]) = lookup (root w) f)
    \<and> (\<forall>p. dir_flag (lookup (root w') p) = dir_flag (lookup (root w) p))
    \<and> (\<forall>p c. (\<forall>g\<in>set fs. p \<noteq> tgt @ [name g] \<and> p \<noteq> tgt @ [name g, name g]) \<longrightarrow>
          (lookup (root w') p = Some (File c)) = (lookup (root w) p = Some (File c)))"
  using assms
proof (induction fs arbitrary: count w)
  case Nil
  then show ?case by simp
next
  case (Cons f fs)
  from Cons.prems(2) have srcs: "\<forall>g\<in>set fs. g \<noteq> [] \<and> butlast g = src"
    and f: "f = src @ [name f]"
    by (auto intro: source_path)
  show ?case
  proof (cases "is_file f w")
    case False
    with Cons.prems(1) have "copy_loop tgt fs count w = (Inr n, w')"
      by simp
    from Cons.IH [OF this srcs] False show ?thesis
      by auto
  next
    case True
    with Cons.prems(1) obtain w1 where step: "copy2 f (tgt @ [name f]) w = (Inr (), w1)"
      and rest: "copy_loop tgt fs (count + 1) w1 = (Inr n, w')"
      by (auto split: prod.splits sum.splits)
    from copy2_Inr [OF step] obtain c q n1 where
      c: "lookup (root w) f = Some (File c)"
      and q: "q = (if is_dir (tgt @ [name f]) w then tgt @ [name f] @ [name f] else tgt @ [name f])"
      and qf: "q \<noteq> f" and wr: "write_file (root w) q c = Inr n1" and w1: "w1 = w\<lparr>root := n1\<rparr>"
      by (metis append.assoc)
    have root1: "root w1 = n1" by (simp add: w1)
    have notq: "g \<noteq> q" if "g \<in> set (f # fs)" for g
    proof
      assume "g = q"
      from that Cons.prems(2) have g: "g = src @ [name g]"
        by (auto intro: source_path)
      from \<open>g = q\<close> g q have "src @ [name g] = tgt @ [name f] \<or> src @ [name g] = (tgt @ [name f]) @ [name f]"
        by (metis append.assoc)
      then have "src = tgt \<and> name g = name f \<or> src = tgt @ [name f] \<and> name g = name f"
        by auto
      then have "q = src @ [name f]"
        using q \<open>g = q\<close> g by auto
      with f qf show False by simp
    qed
    have same: "(lookup n1 g = Some (File d)) = (lookup (root w) g = Some (File d))"
      if "g \<in> set (f # fs)" for g d
      using write_file_other [OF wr notq [OF that]] .
    have files1: "is_file g w1 = is_file g w" if "g \<in> set fs" for g
      using same [of g] that by (simp add: is_file_iff root1)
    have dirs1: "dir_flag (lookup (root w1) p) = dir_flag (lookup (root w) p)" for p
      using write_file_dir_flag [OF wr] by (simp add: root1)
    note IH = Cons.IH [OF rest srcs]
    have a: "n = count + length (filter (\<lambda>f. is_file f w) (f # fs))"
    proof -
      have "filter (\<lambda>f. is_file f w1) fs = filter (\<lambda>f. is_file f w) fs"
        by (rule filter_cong) (simp_all add: files1)
      with IH True show ?thesis by simp
    qed
    have b_rest: "lookup (root w') (tgt @ [name g]) = lookup (root w) g"
      if "g \<in> set fs" "is_file g w" "\<not> is_dir (tgt @ [name g]) w" for g
    proof -
      from that have "is_file g w1" "\<not> is_dir (tgt @ [name g]) w1"
        by (simp_all add: files1 is_dir_iff dirs1)
      with IH that(1) have "lookup (root w') (tgt @ [name g]) = lookup (root w1) g"
        by blast
      also from that(2) obtain d where "lookup (root w) g = Some (File d)"
        by (auto simp: is_file_iff)
      with same [of g d] that(1) have "lookup (root w1) g = lookup (root w) g"
        by (simp add: root1)
      finally show ?thesis .
    qed
    have b_first: "lookup (root w') (tgt @ [name f]) = lookup (root w) f"
      if nd: "\<not> is_dir (tgt @ [name f]) w"
    proof (cases "f \<in> set fs")
      case True
      from b_rest [OF this \<open>is_file f w\<close> nd] show ?thesis .
    next
      case False
      from nd q have q': "q = tgt @ [name f]" by simp
      have "q \<noteq> tgt @ [name g] \<and> q \<noteq> tgt @ [name g, name g]" if "g \<in> set fs" for g
      proof -
        from that srcs have g: "g = src @ [name g]"
          by (auto intro: source_path)
        with f that False have "name g \<noteq> name f"
          by metis
        then show ?thesis by (simp add: q')
      qed
      with IH have "(lookup (root w') q = Some (File c)) = (lookup (root w1) q = Some (File c))"
        by blast
      with write_file_result [OF wr] c show ?thesis
        by (simp add: root1 q')
    qed
    have d: "(lookup (root w') p = Some (File k)) = (lookup (root w) p = Some (File k))"
      if "\<forall>g\<in>set (f # fs). p \<noteq> tgt @ [name g] \<and> p \<noteq> tgt @ [name g, name g]" for p k
    proof -
      from that q have "p \<noteq> q" by auto
      from write_file_other [OF wr this]
      have "(lookup (root w1) p = Some (File k)) = (lookup (root w) p = Some (File k))"
        by (simp add: root1)
      moreover from IH that
      have "(lookup (root w') p = Some (File k)) = (lookup (root w1) p = Some (File k))"
        by simp
      ultimately show ?thesis by simp
    qed
    from IH dirs1 have cc: "\<forall>p. dir_flag (lookup (root w') p) = dir_flag (lookup (root w) p)"
      by simp
    from a b_rest b_first cc d show ?thesis
      by (simp del: filter.simps)
  qed
qed


lemma copy2_success:
  assumes "lookup (root w) f = Some (File c)" and "\<not> is_dir d w" and "f \<noteq> d"
    and "write_file (root w) d c = Inr n'"
  shows "copy2 f d w = (Inr (), w\<lparr>root := n'\<rparr>)"
  using assms by (simp add: copy2_def)

lemma copy_loop_success:
  assumes "\<forall>f\<in>set fs. f \<noteq> [] \<and> butlast f = src" and "src \<noteq> tgt"
    and "dir_flag (lookup (root w) tgt) = Some True"
    and "\<forall>x. dir_flag (lookup (root w) (tgt @ [x])) = None"
  shows "\<exists>n w'. copy_loop tgt fs count w = (Inr n, w')
    \<and> cwd w' = cwd w \<and> home w' = home w \<and> now w' = now w \<and> console w' = console w
    \<and> (\<forall>d pat. d \<noteq> tgt \<longrightarrow>
          node_files pat (lookup (root w') d) = node_files pat (lookup (root w) d))
    \<and> (\<forall>p c. p = [] \<or> butlast p \<noteq> tgt \<longrightarrow>
          (lookup (root w') p = Some (File c)) = (lookup (root w) p = Some (File c)))"
  using assms
proof (induction fs arbitrary: count w)
  case Nil
  then show ?case by simp
next
  case (Cons f fs)
  from Cons.prems(1) have srcs: "\<forall>g\<in>set fs. g \<noteq> [] \<and> butlast g = src"
    and f: "f = src @ [name f]"
    by (auto intro: source_path)
  show ?case
  proof (cases "is_file f w")
    case False
    with Cons.IH [OF srcs Cons.prems(2-4), of count] show ?thesis
      by simp
  next
    case True
    then obtain c where c: "lookup (root w) f = Some (File c)"
      by (auto simp: is_file_iff)
    let ?q = "tgt @ [name f]"
    from Cons.prems(4) have nd: "\<not> is_dir ?q w"
      by (simp add: is_dir_iff)
    from f Cons.prems(2) have ne: "f \<noteq> ?q"
      by (metis append1_eq_conv)
    from write_file_success [OF Cons.prems(3), of "name f" c] Cons.prems(4)
    obtain n1 where wr: "write_file (root w) ?q c = Inr n1"
      by auto
    define w1 where "w1 = w\<lparr>root := n1\<rparr>"
    have step: "copy2 f ?q w = (Inr (), w1)"
      unfolding w1_def by (rule copy2_success [OF c nd ne wr])
    have root1: "root w1 = n1" by (simp add: w1_def)
    have dirs1: "dir_flag (lookup (root w1) p) = dir_flag (lookup (root w) p)" for p
      using write_file_dir_flag [OF wr] by (simp add: root1)
    from Cons.prems(3,4) have inv: "dir_flag (lookup (root w1) tgt) = Some True"
      "\<forall>x. dir_flag (lookup (root w1) (tgt @ [x])) = None"
      by (simp_all add: dirs1)
    from Cons.IH [OF srcs Cons.prems(2) inv, of "count + 1"] obtain n w' where
      run: "copy_loop tgt fs (count + 1) w1 = (Inr n, w')"
      and fields: "cwd w' = cwd w1" "home w' = home w1" "now w' = now w1" "console w' = console w1"
      and nf: "\<forall>d pat. d \<noteq> tgt \<longrightarrow>
          node_files pat (lookup (root w') d) = node_files pat (lookup (root w1) d)"
      and fl: "\<forall>p c. p = [] \<or> butlast p \<noteq> tgt \<longrightarrow>
          (lookup (root w') p = Some (File c)) = (lookup (root w1) p = Some (File c))"
      by blast
    have loop: "copy_loop tgt (f # fs) count w = (Inr n, w')"
      using True step run by simp
    have nf1: "node_files pat (lookup (root w1) d) = node_files pat (lookup (root w) d)"
      if "d \<noteq> tgt" for d pat
      using write_file_node_files [OF wr, of d pat] that by (simp add: root1)
    have fl1: "(lookup (root w1) p = Some (File k)) = (lookup (root w) p = Some (File k))"
      if "p = [] \<or> butlast p \<noteq> tgt" for p k
    proof -
      from that have "p \<noteq> ?q" by auto
      from write_file_other [OF wr this] show ?thesis by (simp add: root1)
    qed
    have A: "\<forall>d pat. d \<noteq> tgt \<longrightarrow>
          node_files pat (lookup (root w') d) = node_files pat (lookup (root w) d)"
      using nf nf1 by simp
    have B: "\<forall>p c. p = [] \<or> butlast p \<noteq> tgt \<longrightarrow>
          (lookup (root w') p = Some (File c)) = (lookup (root w) p = Some (File c))"
    proof (intro allI impI)
      fix p k assume h: "p = [] \<or> butlast p \<noteq> tgt"
      with fl have "(lookup (root w') p = Some (File k)) = (lookup (root w1) p = Some (File k))"
        by blast
      also note fl1 [OF h]
      finally show "(lookup (root w') p = Some (File k)) = (lookup (root w) p = Some (File k))" .
    qed
    have C: "cwd w' = cwd w" "home w' = home w" "now w' = now w" "console w' = console w"
      using fields by (simp_all add: w1_def)
    from loop A B C show ?thesis
      by blast
  qed
qed

lemma mkdir_Inr:
  assumes "mkdir p w = (Inr u, w')"
  obtains n' where "mkdir_p (root w) p = Inr n'" and "w' = w\<lparr>root := n'\<rparr>"
  using assms by (auto simp: mkdir_def split: sum.splits)

lemma lookup_prefix_dir:
  "lookup n p \<noteq> None \<Longrightarrow> dir_flag (lookup n p) \<noteq> None \<Longrightarrow> dir_flag (lookup n (take k p)) \<noteq> None"
proof (induction n p arbitrary: k rule: lookup.induct)
  case (3 wr es x p)
  then show ?case
    by (cases k) (auto split: option.splits)
qed auto

lemma copy_files_Inr:
  assumes "copy_files src tgt pat w = (Inr n, w')" and "path_exists src w"
  shows "is_dir tgt w'" and "n = length (files_in src pat w)"
    and "\<forall>f\<in>set (files_in src pat w). \<not> is_dir (tgt @ [name f]) w \<longrightarrow>
            lookup (root w') (tgt @ [name f]) = lookup (root w) f"
    and "\<forall>p. is_dir p w \<longrightarrow> is_dir p w'"
proof -
  from assms obtain w1 where mk: "mkdir tgt w = (Inr (), w1)"
    and loop: "copy_loop tgt (glob src pat w1) 0 w1 = (Inr n, w')"
    by (auto simp: copy_files_def split: prod.splits sum.splits)
  from mkdir_Inr [OF mk] obtain n1 where n1: "mkdir_p (root w) tgt = Inr n1"
    and w1: "w1 = w\<lparr>root := n1\<rparr>"
    by blast
  have root1: "root w1 = n1" by (simp add: w1)
  have srcs: "\<forall>f\<in>set (glob src pat w1). f \<noteq> [] \<and> butlast f = src"
    using glob_paths by blast
  note L = copy_loop_Inr [OF loop srcs]
  have fi: "files_in src pat w1 = files_in src pat w"
    using mkdir_p_node_files [OF n1] by (simp add: files_in_node root1)
  from L mkdir_p_result [OF n1] show "is_dir tgt w'"
    by (simp add: is_dir_iff root1)
  from L fi show "n = length (files_in src pat w)"
    by (simp add: files_in_def)
  show "\<forall>f\<in>set (files_in src pat w). \<not> is_dir (tgt @ [name f]) w \<longrightarrow>
            lookup (root w') (tgt @ [name f]) = lookup (root w) f"
  proof (intro ballI impI)
    fix f assume f: "f \<in> set (files_in src pat w)" and nd: "\<not> is_dir (tgt @ [name f]) w"
    from f fi have "f \<in> set (files_in src pat w1)"
      by simp
    then have f1: "f \<in> set (glob src pat w1)" "is_file f w1"
      by (auto simp: files_in_def)
    have "lookup n1 (tgt @ [name f]) = lookup (root w) (tgt @ [name f])"
      by (rule mkdir_p_frame [OF n1]) simp
    with nd have "\<not> is_dir (tgt @ [name f]) w1"
      by (simp add: is_dir_iff root1)
    with L f1 have "lookup (root w') (tgt @ [name f]) = lookup (root w1) f"
      by blast
    also from f1(2) obtain c where "lookup n1 f = Some (File c)"
      by (auto simp: is_file_iff root1)
    with mkdir_p_files [OF n1, of f c] have "lookup (root w1) f = lookup (root w) f"
      by (simp add: root1)
    finally show "lookup (root w') (tgt @ [name f]) = lookup (root w) f" .
  qed
  show "\<forall>p. is_dir p w \<longrightarrow> is_dir p w'"
  proof (intro allI impI)
    fix p assume "is_dir p w"
    then obtain b where "dir_flag (lookup (root w) p) = Some b"
      by (auto simp: is_dir_iff)
    from mkdir_p_dir_flag [OF n1 this] L show "is_dir p w'"
      by (simp add: is_dir_iff root1)
  qed
qed

lemma copy_files_success:
  assumes "path_exists src w" and "mkdir tgt w = (Inr (), w1)"
    and "dir_flag (lookup (root w1) tgt) = Some True"
    and "\<forall>x. \<not> is_dir (tgt @ [x]) w1" and "src \<noteq> tgt"
  shows "\<exists>n w'. copy_files src tgt pat w = (Inr n, w')"
proof -
  have srcs: "\<forall>f\<in>set (glob src pat w1). f \<noteq> [] \<and> butlast f = src"
    using glob_paths by blast
  from assms(4) have "\<forall>x. dir_flag (lookup (root w1) (tgt @ [x])) = None"
    by (simp add: is_dir_iff)
  from copy_loop_success [OF srcs assms(5,3) this, of 0]
  obtain n w' where "copy_loop tgt (glob src pat w1) 0 w1 = (Inr n, w')"
    by blast
  with assms(1,2) show ?thesis
    by (simp add: copy_files_def)
qed

subsection \<open>Time stamps and backups\<close>



lemma digit_char_mod: "digit_char (n mod 10) = digit_char n"
  by (simp add: digit_char_def)





lemma backup_existing_files_cases:
  "backup_existing_files t w =
     (case lookup (root w) t of
        None \<Rightarrow> (Inr None, w)
      | Some (File c) \<Rightarrow> (Inl NotADirectoryError, w)
      | Some (Dir wr es) \<Rightarrow>
          if es = [] then (Inr None, w)
          else if path_exists (parent t @ [name t @ ''.backup.'' @ strftime (now w)]) w
          then (Inl FileExistsError, w)
          else
            (case mkdir_p (root w) (parent t @ [name t @ ''.backup.'' @ strftime (now w)]) of
               Inl e \<Rightarrow> (Inl e, w)
             | Inr r \<Rightarrow>
                 (Inr (Some (parent t @ [name t @ ''.backup.'' @ strftime (now w)])),
                  w\<lparr>root := put_node r (parent t @ [name t @ ''.backup.'' @ strftime (now w)])
                               (Dir wr es)\<rparr>)))"
  by (simp add: backup_existing_files_def path_exists_def iterdir_def copytree_def io_then_def
      io_bind_def io_return_def Let_def split: option.splits node.splits sum.splits)


subsection \<open>The agent tables\<close>

lemma validate_agent_cases:
  "validate_agent agent \<longleftrightarrow>
     agent = ''claude-code'' \<or> agent = ''opencode'' \<or> agent = ''droid''"
  by (auto simp: validate_agent_def AGENT_DIRS_def)

lemma getitem_dirs:
  assumes "validate_agent agent"
  shows "\<exists>c a r. getitem (AGENT_DIRS h) agent w = (Inr c, w)
           \<and> getitem (AGENT_AGENT_DIRS h) agent w = (Inr a, w)
           \<and> getitem (AGENT_RULES_DIRS h) agent w = (Inr r, w)"
  using assms unfolding validate_agent_cases
  by (auto simp: getitem_def AGENT_DIRS_def AGENT_AGENT_DIRS_def AGENT_RULES_DIRS_def)

subsection \<open>Planning\<close>

text \<open>
  Claim C8. Planning is idempotent and deterministic: \<^verbatim>\<open>count_files\<close> never raises and
  leaves the world as it found it, so a second call right after the first returns the
  same four counts.
\<close>

theorem count_files_idempotent:
  "\<exists>plan. count_files language w = (Inr plan, w) \<and>
     io_bind (count_files language) (\<lambda>first. io_bind (count_files language) (\<lambda>second.
        io_return (first, second))) w = (Inr (plan, plan), w)"
  by (simp add: count_files_def get_source_dirs_def get_script_dir_def Let_def io_bind_def
      io_return_def)

text \<open>
  Claim C9. In one world, the plans of two languages agree on the command count, the
  shared-agent count and the rule count; only the language-agent count may differ.
\<close>

theorem count_files_language_independent:
  "\<exists>c s a1 a2 r. count_files l1 w = (Inr (c, s, a1, r), w)
      \<and> count_files l2 w = (Inr (c, s, a2, r), w)"
  by (simp add: count_files_def get_source_dirs_def get_script_dir_def Let_def)

subsection \<open>A missing source\<close>

text \<open>
  Claim C10. When the source directory does not exist, \<^verbatim>\<open>copy_files\<close> returns 0 and the
  world it leaves is the world it was given: the check comes before the \<^verbatim>\<open>mkdir\<close>, so
  neither the target directory nor any ancestor of it is created.
\<close>

theorem copy_files_missing_source:
  "\<not> path_exists source_dir w \<Longrightarrow> copy_files source_dir target_dir pat w = (Inr 0, w)"
  by (simp add: copy_files_def)

theorem copy_files_missing_source_witness:
  "copy_files [''work'', ''nothing''] [''home'', ''user'', ''.claude'', ''commands''] md fresh_world
     = (Inr 0, fresh_world)
   \<and> \<not> path_exists [''home'', ''user'', ''.claude''] fresh_world"
proof -
  have "\<not> path_exists [''work'', ''nothing''] fresh_world"
    by (simp add: path_exists_def fresh_world_def)
  from copy_files_missing_source [OF this] show ?thesis
    by (simp add: path_exists_def fresh_world_def)
qed

text \<open>
  Claim C7. For a supported agent, when the source commands directory does not exist,
  \<^verbatim>\<open>install_to_agent\<close> returns the result (0, 0, 0, success = False) with one error
  message, and the world is unchanged: no directory is created, no backup is taken, no
  file is copied and nothing is printed.
\<close>

theorem install_missing_commands:
  assumes "validate_agent agent" and "\<not> path_exists (cwd w @ [''commands'']) w"
  shows "install_to_agent agent language w =
           (Inr \<lparr>commands_installed = 0, agents_installed = 0, rules_installed = 0,
                  success = False,
                  errors = [''Commands directory not found: '' @
                            path_str (cwd w @ [''commands''])]\<rparr>,
            w)"
proof -
  obtain c a r where
    "getitem (AGENT_DIRS (home w)) agent w = (Inr c, w)"
    "getitem (AGENT_AGENT_DIRS (home w)) agent w = (Inr a, w)"
    "getitem (AGENT_RULES_DIRS (home w)) agent w = (Inr r, w)"
    using getitem_dirs [OF assms(1)] by blast
  then show ?thesis
    using assms(2)
    by (simp add: install_to_agent_def io_bind_def get_source_dirs_def get_script_dir_def
        io_return_def Let_def)
qed

theorem install_missing_commands_witness:
  "install_to_agent ''droid'' ''python'' bare_world =
     (Inr \<lparr>commands_installed = 0, agents_installed = 0, rules_installed = 0,
            success = False, errors = [''Commands directory not found: /work/commands'']\<rparr>,
      bare_world)
   \<and> \<not> path_exists [''home'', ''user'', ''.factory''] bare_world"
proof -
  have a: "validate_agent ''droid''"
    by (simp add: validate_agent_cases)
  have b: "\<not> path_exists (cwd bare_world @ [''commands'']) bare_world"
    by (simp add: path_exists_def bare_world_def)
  have c: "path_str (cwd bare_world @ [''commands'']) = ''/work/commands''"
    by (simp add: path_str_def bare_world_def)
  have d: "\<not> path_exists [''home'', ''user'', ''.factory''] bare_world"
    by (simp add: path_exists_def bare_world_def)
  from install_missing_commands [OF a b, of "''python''"] c d show ?thesis
    by simp
qed

subsection \<open>The result of an installation\<close>

lemma emit_eq: "emit m w = (Inr (), w\<lparr>console := console w @ [m]\<rparr>)"
  by (simp add: emit_def)

lemma count_files_reads:
  assumes "root w' = root w" and "cwd w' = cwd w"
  shows "fst (count_files l w') = fst (count_files l w)" and "snd (count_files l w') = w'"
  using assms
  by (simp_all add: count_files_def get_source_dirs_def get_script_dir_def Let_def
      path_exists_def glob_def)

lemma verify_count_eq:
  "verify_count category expected installed w =
     (Inr (), w\<lparr>console := console w @
        [if installed \<noteq> expected
         then Warning (category @ '': Expected '' @ show_nat expected @
                       '' files, but installed '' @ show_nat installed)
         else Success (category @ '' installation verified'')]\<rparr>)"
  by (simp add: verify_count_def show_warning_def show_success_def emit_def)

lemma verify_installation_eq:
  assumes "fst (count_files language w) = Inr (cc, sc, lc, rc)"
  shows "verify_installation language ci ai ri w =
     (Inr (), w\<lparr>console := console w @
        [if ci \<noteq> cc
         then Warning (''Commands: Expected '' @ show_nat cc @
                       '' files, but installed '' @ show_nat ci)
         else Success ''Commands installation verified'',
         if ai \<noteq> sc + lc
         then Warning (''Agents: Expected '' @ show_nat (sc + lc) @
                       '' files, but installed '' @ show_nat ai)
         else Success ''Agents installation verified'',
         if ri \<noteq> rc
         then Warning (''Rules: Expected '' @ show_nat rc @
                       '' files, but installed '' @ show_nat ri)
         else Success ''Rules installation verified'']\<rparr>)"
proof -
  have "count_files language w = (Inr (cc, sc, lc, rc), w)"
    using assms count_files_reads(2) [of w w language] by (simp add: prod_eq_iff)
  then show ?thesis
    by (simp add: verify_installation_def io_bind_def io_then_def verify_count_eq Let_def)
qed

lemma count_files_total: "\<exists>cc sc lc rc. fst (count_files language w) = Inr (cc, sc, lc, rc)"
  by (simp add: count_files_def get_source_dirs_def get_script_dir_def Let_def)


lemma io_bindE:
  assumes "io_bind m f w = (Inr r, w')"
  obtains x w1 where "m w = (Inr x, w1)" and "f x w1 = (Inr r, w')"
  using assms by (auto simp: io_bind_Inr)

lemma io_thenE:
  assumes "io_then m k w = (Inr r, w')"
  obtains w1 where "m w = (Inr (), w1)" and "k w1 = (Inr r, w')"
  using assms by (auto simp: io_then_Inr)

lemma install_to_agent_unfold:
  assumes "map_of (AGENT_DIRS (home w)) agent = Some ct"
    and "map_of (AGENT_AGENT_DIRS (home w)) agent = Some at"
    and "map_of (AGENT_RULES_DIRS (home w)) agent = Some rt"
  shows "install_to_agent agent language w =
    (if \<not> path_exists (cwd w @ [''commands'']) w then
       (Inr \<lparr>commands_installed = 0, agents_installed = 0, rules_installed = 0,
              success = False,
              errors = [''Commands directory not found: '' @
                        path_str (cwd w @ [''commands''])]\<rparr>, w)
     else
       io_then (create_directories ct at rt)
      (io_then (backup_commands ct)
      (io_bind (copy_commands (cwd w @ [''commands'']) ct) (\<lambda>ci.
       io_bind (copy_agents (cwd w @ [''agents'']) at language) (\<lambda>ai.
       io_bind (copy_rules (cwd w @ [''rules'']) rt) (\<lambda>ri.
       io_then (verify_installation language ci ai ri)
               (io_return \<lparr>commands_installed = ci, agents_installed = ai,
                            rules_installed = ri, success = True, errors = []\<rparr>)))))) w)"
  using assms
  by (simp add: install_to_agent_def getitem_def io_bind_def Let_def get_source_dirs_def
      get_script_dir_def io_return_def)

lemma install_to_agent_unknown:
  assumes "\<not> validate_agent agent"
  shows "install_to_agent agent language w = (Inl (KeyError agent), w)"
proof -
  have "map_of (AGENT_DIRS (home w)) agent = None"
    using assms by (auto simp: validate_agent_def AGENT_DIRS_def)
  then show ?thesis
    by (simp add: install_to_agent_def getitem_def io_bind_def Let_def)
qed

lemma agent_dirs_defined:
  assumes "validate_agent agent"
  shows "\<exists>ct at rt. map_of (AGENT_DIRS h) agent = Some ct
           \<and> map_of (AGENT_AGENT_DIRS h) agent = Some at
           \<and> map_of (AGENT_RULES_DIRS h) agent = Some rt"
  using assms unfolding validate_agent_cases
  by (auto simp: AGENT_DIRS_def AGENT_AGENT_DIRS_def AGENT_RULES_DIRS_def)

text \<open>
  Claim C4. In every result that \<^verbatim>\<open>install_to_agent\<close> returns, \<^verbatim>\<open>success\<close> is true iff
  the error list is empty. When the source commands directory exists, so that the counts
  are reconciled, the result has no error and \<^verbatim>\<open>success\<close> is true whether or not the
  copied counts match the recomputed plan, and every category whose counts differ is
  reported by a warning line on the console.
\<close>

theorem install_success_iff_no_errors:
  assumes "install_to_agent agent language w = (Inr r, w')"
  shows "(success r \<longleftrightarrow> errors r = []) \<and>
         (path_exists (cwd w @ [''commands'']) w \<longrightarrow>
            success r \<and> errors r = [] \<and>
            (\<exists>cc sc lc rc. count_files language w' = (Inr (cc, sc, lc, rc), w')
               \<and> (commands_installed r \<noteq> cc \<longrightarrow>
                    Warning (''Commands: Expected '' @ show_nat cc @
                             '' files, but installed '' @ show_nat (commands_installed r))
                      \<in> set (console w'))
               \<and> (agents_installed r \<noteq> sc + lc \<longrightarrow>
                    Warning (''Agents: Expected '' @ show_nat (sc + lc) @
                             '' files, but installed '' @ show_nat (agents_installed r))
                      \<in> set (console w'))
               \<and> (rules_installed r \<noteq> rc \<longrightarrow>
                    Warning (''Rules: Expected '' @ show_nat rc @
                             '' files, but installed '' @ show_nat (rules_installed r))
                      \<in> set (console w'))))"
proof -
  have "validate_agent agent"
    using assms install_to_agent_unknown [of agent language w] by auto
  then obtain ct at rt where dirs:
    "map_of (AGENT_DIRS (home w)) agent = Some ct"
    "map_of (AGENT_AGENT_DIRS (home w)) agent = Some at"
    "map_of (AGENT_RULES_DIRS (home w)) agent = Some rt"
    using agent_dirs_defined by blast
  note unfold = install_to_agent_unfold [OF dirs, of language]
  show ?thesis
  proof (cases "path_exists (cwd w @ [''commands'']) w")
    case False
    with assms unfold have "r = \<lparr>commands_installed = 0, agents_installed = 0,
        rules_installed = 0, success = False,
        errors = [''Commands directory not found: '' @ path_str (cwd w @ [''commands''])]\<rparr>"
      by auto
    with False show ?thesis by simp
  next
    case True
    with assms unfold have run:
      "io_then (create_directories ct at rt)
      (io_then (backup_commands ct)
      (io_bind (copy_commands (cwd w @ [''commands'']) ct) (\<lambda>ci.
       io_bind (copy_agents (cwd w @ [''agents'']) at language) (\<lambda>ai.
       io_bind (copy_rules (cwd w @ [''rules'']) rt) (\<lambda>ri.
       io_then (verify_installation language ci ai ri)
               (io_return \<lparr>commands_installed = ci, agents_installed = ai,
                            rules_installed = ri, success = True, errors = []\<rparr>)))))) w
        = (Inr r, w')"
      by simp
    from run obtain ci ai ri w5 w6 where
      v: "verify_installation language ci ai ri w5 = (Inr (), w6)" and
      r0: "io_return \<lparr>commands_installed = ci, agents_installed = ai, rules_installed = ri,
               success = True, errors = []\<rparr> w6 = (Inr r, w')"
      by (elim io_bindE io_thenE)
    from r0 have r: "r = \<lparr>commands_installed = ci, agents_installed = ai, rules_installed = ri,
               success = True, errors = []\<rparr>" and w6: "w6 = w'"
      by (simp_all add: io_return_def)
    note v = v [unfolded w6]
    obtain cc sc lc rc where c: "fst (count_files language w5) = Inr (cc, sc, lc, rc)"
      using count_files_total by blast
    have "(Inr (), w') = verify_installation language ci ai ri w5"
      using v by simp
    also note verify_installation_eq [OF c, of ci ai ri]
    finally have weq: "w' = w5\<lparr>console := console w5 @
        [if ci \<noteq> cc
         then Warning (''Commands: Expected '' @ show_nat cc @
                       '' files, but installed '' @ show_nat ci)
         else Success ''Commands installation verified'',
         if ai \<noteq> sc + lc
         then Warning (''Agents: Expected '' @ show_nat (sc + lc) @
                       '' files, but installed '' @ show_nat ai)
         else Success ''Agents installation verified'',
         if ri \<noteq> rc
         then Warning (''Rules: Expected '' @ show_nat rc @
                       '' files, but installed '' @ show_nat ri)
         else Success ''Rules installation verified'']\<rparr>"
      by simp
    have w': "root w' = root w5" "cwd w' = cwd w5"
      by (simp_all add: weq)
    have con: "console w' = console w5 @
        [if ci \<noteq> cc
         then Warning (''Commands: Expected '' @ show_nat cc @
                       '' files, but installed '' @ show_nat ci)
         else Success ''Commands installation verified'',
         if ai \<noteq> sc + lc
         then Warning (''Agents: Expected '' @ show_nat (sc + lc) @
                       '' files, but installed '' @ show_nat ai)
         else Success ''Agents installation verified'',
         if ri \<noteq> rc
         then Warning (''Rules: Expected '' @ show_nat rc @
                       '' files, but installed '' @ show_nat ri)
         else Success ''Rules installation verified'']"
      by (simp add: weq)
    have cf: "count_files language w' = (Inr (cc, sc, lc, rc), w')"
      using count_files_reads [OF w', of language] c by (simp add: prod_eq_iff)
    have sel: "success r" "errors r = []" "commands_installed r = ci"
      "agents_installed r = ai" "rules_installed r = ri"
      by (simp_all add: r)
    have "(commands_installed r \<noteq> cc \<longrightarrow>
             Warning (''Commands: Expected '' @ show_nat cc @
                      '' files, but installed '' @ show_nat (commands_installed r))
               \<in> set (console w'))"
      and "(agents_installed r \<noteq> sc + lc \<longrightarrow>
             Warning (''Agents: Expected '' @ show_nat (sc + lc) @
                      '' files, but installed '' @ show_nat (agents_installed r))
               \<in> set (console w'))"
      and "(rules_installed r \<noteq> rc \<longrightarrow>
             Warning (''Rules: Expected '' @ show_nat rc @
                      '' files, but installed '' @ show_nat (rules_installed r))
               \<in> set (console w'))"
      unfolding sel con by simp_all
    with cf sel(1,2) show ?thesis
      by blast
  qed
qed

theorem install_success_iff_no_errors_witness:
  "fst (install_to_agent ''claude-code'' ''python'' mismatch_world) =
     Inr \<lparr>commands_installed = 1, agents_installed = 0, rules_installed = 1,
            success = True, errors = []\<rparr>
   \<and> fst (count_files ''python'' (snd (install_to_agent ''claude-code'' ''python'' mismatch_world)))
       = Inr (2, 0, 0, 1)
   \<and> Warning ''Commands: Expected 2 files, but installed 1''
       \<in> set (console (snd (install_to_agent ''claude-code'' ''python'' mismatch_world)))"
proof -
  define r where "r = \<lparr>commands_installed = 1, agents_installed = 0, rules_installed = 1,
            success = True, errors = []\<rparr>"
  define w' where "w' = snd (install_to_agent ''claude-code'' ''python'' mismatch_world)"
  have run: "fst (install_to_agent ''claude-code'' ''python'' mismatch_world) =
     Inr \<lparr>commands_installed = 1, agents_installed = 0, rules_installed = 1,
            success = True, errors = []\<rparr>"
    by code_simp
  have plan: "fst (count_files ''python''
                (snd (install_to_agent ''claude-code'' ''python'' mismatch_world)))
              = Inr (2, 0, 0, 1)"
    by code_simp
  have src: "path_exists (cwd mismatch_world @ [''commands'']) mismatch_world"
    by code_simp
  have eq: "install_to_agent ''claude-code'' ''python'' mismatch_world = (Inr r, w')"
    by (simp add: prod_eq_iff run r_def w'_def)
  have msg: "''Commands: Expected '' @ show_nat 2 @ '' files, but installed '' @ show_nat 1
               = ''Commands: Expected 2 files, but installed 1''"
    by code_simp
  from install_success_iff_no_errors [OF eq] src plan
  have "Warning (''Commands: Expected '' @ show_nat 2 @ '' files, but installed '' @ show_nat 1)
       \<in> set (console w')"
    by (auto simp: r_def w'_def)
  then have "Warning ''Commands: Expected 2 files, but installed 1''
       \<in> set (console (snd (install_to_agent ''claude-code'' ''python'' mismatch_world)))"
    unfolding msg w'_def .
  with run plan show ?thesis
    by blast
qed

subsection \<open>The contract of copy_files\<close>

text \<open>
  Claim C6. For every source directory, target directory and pattern: when the source
  does not exist, \<^verbatim>\<open>copy_files\<close> returns 0 and changes nothing. Otherwise, whenever it
  returns, the target directory and all its ancestors are directories, the number
  returned is the number of regular files of the source that the pattern selects, and
  each of them is found under its own name in the target with the content it has in the
  source, whether or not the target held a file of that name before (a target entry of
  that name that is a directory receives the file inside it instead). It does return when
  the target can be created, is writable, holds no directory and is not the source itself.
\<close>

theorem copy_files_spec:
  "(\<not> path_exists source_dir w \<longrightarrow> copy_files source_dir target_dir pat w = (Inr 0, w))
   \<and> (path_exists source_dir w \<longrightarrow> copy_files source_dir target_dir pat w = (Inr n, w') \<longrightarrow>
        (\<forall>k. is_dir (take k target_dir) w')
        \<and> n = length (files_in source_dir pat w)
        \<and> (\<forall>f\<in>set (files_in source_dir pat w). \<not> is_dir (target_dir @ [name f]) w \<longrightarrow>
              lookup (root w') (target_dir @ [name f]) = lookup (root w) f))
   \<and> (path_exists source_dir w \<longrightarrow> mkdir target_dir w = (Inr (), w1) \<longrightarrow>
        dir_flag (lookup (root w1) target_dir) = Some True \<longrightarrow>
        (\<forall>x. \<not> is_dir (target_dir @ [x]) w1) \<longrightarrow> source_dir \<noteq> target_dir \<longrightarrow>
        (\<exists>m v. copy_files source_dir target_dir pat w = (Inr m, v)))"
proof (intro conjI impI)
  assume "\<not> path_exists source_dir w"
  then show "copy_files source_dir target_dir pat w = (Inr 0, w)"
    by (simp add: copy_files_def)
next
  assume h: "path_exists source_dir w" "copy_files source_dir target_dir pat w = (Inr n, w')"
  note R = copy_files_Inr [OF h(2,1)]
  from R(1) have d: "dir_flag (lookup (root w') target_dir) \<noteq> None"
    by (simp add: is_dir_iff)
  then have "lookup (root w') target_dir \<noteq> None"
    by (cases "lookup (root w') target_dir") auto
  from lookup_prefix_dir [OF this d] show "\<forall>k. is_dir (take k target_dir) w'"
    by (simp add: is_dir_iff)
  from R(2) show "n = length (files_in source_dir pat w)" .
  from R(3) show "\<forall>f\<in>set (files_in source_dir pat w). \<not> is_dir (target_dir @ [name f]) w \<longrightarrow>
              lookup (root w') (target_dir @ [name f]) = lookup (root w) f" .
next
  assume "path_exists source_dir w" "mkdir target_dir w = (Inr (), w1)"
    "dir_flag (lookup (root w1) target_dir) = Some True"
    "\<forall>x. \<not> is_dir (target_dir @ [x]) w1" "source_dir \<noteq> target_dir"
  then show "\<exists>m v. copy_files source_dir target_dir pat w = (Inr m, v)"
    by (rule copy_files_success)
qed

theorem copy_files_spec_witness:
  "path_exists [''work'', ''sage-dev'', ''commands''] used_world
   \<and> fst (copy_files [''work'', ''sage-dev'', ''commands'']
            [''home'', ''user'', ''.claude'', ''commands''] md used_world) = Inr 5
   \<and> lookup (root used_world) [''home'', ''user'', ''.claude'', ''commands'', ''plan.md'']
       = Some (File ''old plan'')
   \<and> lookup (root (snd (copy_files [''work'', ''sage-dev'', ''commands'']
                          [''home'', ''user'', ''.claude'', ''commands''] md used_world)))
         [''home'', ''user'', ''.claude'', ''commands'', ''plan.md'']
       = Some (File ''plan'')"
proof -
  let ?src = "[''work'', ''sage-dev'', ''commands'']"
  let ?tgt = "[''home'', ''user'', ''.claude'', ''commands'']"
  define w' where "w' = snd (copy_files ?src ?tgt md used_world)"
  have pe: "path_exists ?src used_world"
    by code_simp
  have n: "fst (copy_files ?src ?tgt md used_world) = Inr 5"
    by code_simp
  then have run: "copy_files ?src ?tgt md used_world = (Inr 5, w')"
    by (simp add: prod_eq_iff w'_def)
  have old: "lookup (root used_world) (?tgt @ [''plan.md'']) = Some (File ''old plan'')"
    by code_simp
  have f: "?src @ [''plan.md''] \<in> set (files_in ?src md used_world)"
    by code_simp
  have nm: "name (?src @ [''plan.md'']) = ''plan.md''"
    by (simp add: name_def)
  have nd: "\<not> is_dir (?tgt @ [name (?src @ [''plan.md''])]) used_world"
    unfolding nm by code_simp
  have c: "lookup (root used_world) (?src @ [''plan.md'']) = Some (File ''plan'')"
    by code_simp
  from copy_files_spec [of ?src used_world ?tgt md 5 w'] pe run
  have "\<forall>f\<in>set (files_in ?src md used_world). \<not> is_dir (?tgt @ [name f]) used_world \<longrightarrow>
              lookup (root w') (?tgt @ [name f]) = lookup (root used_world) f"
    by blast
  with f nd have "lookup (root w') (?tgt @ [name (?src @ [''plan.md''])])
      = lookup (root used_world) (?src @ [''plan.md''])"
    by blast
  with c have "lookup (root w') (?tgt @ [''plan.md'']) = Some (File ''plan'')"
    unfolding nm by simp
  with pe n old show ?thesis
    by (simp add: w'_def)
qed

subsection \<open>The contract of backup_existing_files\<close>




subsection \<open>Errors that are raised\<close>












subsection \<open>Installing to an empty target\<close>

lemma vacant_new: "vacant (Dir True []) p"
  by (cases p) auto

lemma mkdir_p_vacant:
  "vacant n p \<Longrightarrow> \<exists>n'. mkdir_p n p = Inr n' \<and> lookup n' p = Some (Dir True [])"
proof (induction n p rule: mkdir_p.induct)
  case (4 wr es x p)
  show ?case
  proof (cases "map_of es x")
    case None
    with "4.prems" have wr: wr by simp
    from "4.IH"(1) [OF None wr vacant_new] obtain m' where
      "mkdir_p (Dir True []) p = Inr m'" "lookup m' p = Some (Dir True [])"
      by blast
    with None wr show ?thesis
      by (simp add: lookup_snoc del: lookup.simps(3))
  next
    case (Some m)
    with "4.prems" have "vacant m p" by simp
    from "4.IH"(2) [OF Some this] obtain m' where
      "mkdir_p m p = Inr m'" "lookup m' p = Some (Dir True [])"
      by blast
    with Some show ?thesis
      by (simp add: lookup_update del: lookup.simps(3))
  qed
qed auto

lemma vacant_snoc:
  "map_of es x = None \<Longrightarrow>
     vacant (Dir wr (es @ [(x, v)])) (y # r) =
       (if y = x then vacant v r else vacant (Dir wr es) (y # r))"
  by (simp add: map_of_snoc del: map_of_append)

lemma vacant_update:
  "vacant (Dir wr (AList.update x v es)) (y # r) =
     (if y = x then vacant v r else vacant (Dir wr es) (y # r))"
  by (simp add: update_conv')

lemma mkdir_p_keeps_vacant:
  "mkdir_p n q = Inr n' \<Longrightarrow> vacant n p \<Longrightarrow> \<not> prefix p q \<Longrightarrow> vacant n' p"
proof (induction n q arbitrary: n' p rule: mkdir_p.induct)
  case (4 wr es x q)
  from "4.prems"(3) obtain y r where p: "p = y # r"
    by (cases p) auto
  show ?case
  proof (cases "map_of es x")
    case None
    with "4.prems" obtain m' where wr: wr and m': "mkdir_p (Dir True []) q = Inr m'"
      and n': "n' = Dir wr (es @ [(x, m')])"
      by (auto split: sum.splits if_splits)
    show ?thesis
    proof (cases "y = x")
      case True
      with "4.prems"(3) p have r: "\<not> prefix r q" by auto
      from "4.IH"(1) [OF None wr m' vacant_new r] None True show ?thesis
        by (simp add: p n' vacant_snoc del: vacant.simps(3))
    next
      case False
      with None "4.prems"(2) show ?thesis
        by (simp add: p n' vacant_snoc del: vacant.simps(3))
    qed
  next
    case (Some m)
    with "4.prems" obtain m' where m': "mkdir_p m q = Inr m'"
      and n': "n' = Dir wr (AList.update x m' es)"
      by (auto split: sum.splits)
    show ?thesis
    proof (cases "y = x")
      case True
      with "4.prems"(3) p have r: "\<not> prefix r q" by auto
      from "4.prems"(2) Some True have "vacant m r" by (simp add: p)
      from "4.IH"(2) [OF Some m' this r] True show ?thesis
        by (simp add: p n' vacant_update del: vacant.simps(3))
    next
      case False
      with "4.prems"(2) show ?thesis
        by (simp add: p n' vacant_update del: vacant.simps(3))
    qed
  qed
qed auto

lemma frame_refl: "frame T w w"
  by (simp add: frame_def)

lemma frame_trans: "frame T w w' \<Longrightarrow> frame T w' w'' \<Longrightarrow> frame T w w''"
  unfolding frame_def by (intro conjI allI impI) simp_all

lemma frame_mono: "frame T w w' \<Longrightarrow> T \<subseteq> T' \<Longrightarrow> frame T' w w'"
  unfolding frame_def by (intro conjI allI impI) auto

lemma frame_console: "frame T w (w\<lparr>console := c\<rparr>)"
  by (simp add: frame_def)

lemma frame_flat: "frame T w w' \<Longrightarrow> flat t w \<Longrightarrow> flat t w'"
  by (simp add: frame_def flat_def)

lemma frame_exists: "frame T w w' \<Longrightarrow> is_dir p w \<Longrightarrow> path_exists p w'"
  by (simp add: frame_def is_dir_iff path_exists_iff)

lemma frame_is_dir: "frame T w w' \<Longrightarrow> is_dir p w' = is_dir p w"
  by (simp add: frame_def is_dir_iff)

lemma frame_files: "frame T w w' \<Longrightarrow> d \<notin> T \<Longrightarrow>
    node_files pat (lookup (root w') d) = node_files pat (lookup (root w) d)"
  by (simp add: frame_def)

lemma frame_file: "frame T w w' \<Longrightarrow> d \<notin> T \<Longrightarrow> is_file (d @ [x]) w' = is_file (d @ [x]) w"
  by (simp add: frame_def is_file_iff)

lemma frame_lookup_file:
  "frame T w w' \<Longrightarrow> d \<notin> T \<Longrightarrow> lookup (root w) (d @ [x]) = Some (File c) \<Longrightarrow>
     lookup (root w') (d @ [x]) = Some (File c)"
  by (simp add: frame_def)

lemma mkdir_existing:
  assumes "dir_flag (lookup (root w) t) \<noteq> None"
  shows "mkdir t w = (Inr (), w)"
  using mkdir_p_existing [OF assms] by (simp add: mkdir_def)

lemma copy_files_flat:
  assumes "path_exists src w" and "flat tgt w" and "src \<noteq> tgt"
  shows "\<exists>w'. copy_files src tgt pat w = (Inr (length (node_files pat (lookup (root w) src))), w')
           \<and> frame {tgt} w w' \<and> console w' = console w"
proof -
  from assms(2) have t: "dir_flag (lookup (root w) tgt) = Some True"
    and sub: "\<forall>x. dir_flag (lookup (root w) (tgt @ [x])) = None"
    by (simp_all add: flat_def)
  from t have mk: "mkdir tgt w = (Inr (), w)"
    by (intro mkdir_existing) simp
  have srcs: "\<forall>f\<in>set (glob src pat w). f \<noteq> [] \<and> butlast f = src"
    using glob_paths by blast
  from copy_loop_success [OF srcs assms(3) t sub, of 0] obtain n w' where
    loop: "copy_loop tgt (glob src pat w) 0 w = (Inr n, w')"
    and fields: "cwd w' = cwd w" "home w' = home w" "now w' = now w" "console w' = console w"
    and nf: "\<forall>d pat. d \<noteq> tgt \<longrightarrow>
          node_files pat (lookup (root w') d) = node_files pat (lookup (root w) d)"
    and fl: "\<forall>p c. p = [] \<or> butlast p \<noteq> tgt \<longrightarrow>
          (lookup (root w') p = Some (File c)) = (lookup (root w) p = Some (File c))"
    by blast
  note L = copy_loop_Inr [OF loop srcs]
  have "length (files_in src pat w) = length (node_files pat (lookup (root w) src))"
    by (simp add: files_in_node)
  with L have n: "n = length (node_files pat (lookup (root w) src))"
    by (simp add: files_in_def)
  from L have df: "\<forall>p. dir_flag (lookup (root w') p) = dir_flag (lookup (root w) p)"
    by blast
  have "copy_files src tgt pat w = (Inr n, w')"
    using assms(1) mk loop by (simp add: copy_files_def)
  moreover have "frame {tgt} w w'"
    unfolding frame_def using fields df nf fl by simp
  ultimately show ?thesis
    using n fields(4) by blast
qed

lemma show_success_eq: "show_success s w = (Inr (), w\<lparr>console := console w @ [Success s]\<rparr>)"
  by (simp add: show_success_def emit_def)

lemma copy_commands_flat:
  assumes "path_exists src w" and "flat tgt w" and "src \<noteq> tgt"
  shows "\<exists>w'. copy_commands src tgt w = (Inr (length (node_files md (lookup (root w) src))), w')
           \<and> frame {tgt} w w'"
proof -
  from copy_files_flat [OF assms, of md] obtain w1 where
    c: "copy_files src tgt md w = (Inr (length (node_files md (lookup (root w) src))), w1)"
    and f: "frame {tgt} w w1"
    by blast
  have "frame {tgt} w1 (w1\<lparr>console := console w1 @ [m]\<rparr>)" for m
    by (rule frame_console)
  from frame_trans [OF f this] c show ?thesis
    by (simp add: copy_commands_def io_bind_def io_then_def show_success_eq io_return_def)
qed

lemma copy_rules_flat:
  assumes "path_exists src w" and "flat tgt w" and "src \<noteq> tgt"
  shows "\<exists>w'. copy_rules src tgt w = (Inr (length (node_files md (lookup (root w) src))), w')
           \<and> frame {tgt} w w'"
proof -
  from copy_files_flat [OF assms, of md] obtain w1 where
    c: "copy_files src tgt md w = (Inr (length (node_files md (lookup (root w) src))), w1)"
    and f: "frame {tgt} w w1"
    by blast
  have "frame {tgt} w1 (w1\<lparr>console := console w1 @ [m]\<rparr>)" for m
    by (rule frame_console)
  from frame_trans [OF f this] c show ?thesis
    by (simp add: copy_rules_def io_bind_def io_then_def show_success_eq io_return_def)
qed

lemma copy_shared_agents_flat:
  assumes "path_exists (agents_dir @ [''shared'']) w" and "flat tgt w"
    and "agents_dir @ [''shared''] \<noteq> tgt"
  shows "\<exists>w'. copy_shared_agents agents_dir tgt k w =
           (Inr (k + length (node_files md (lookup (root w) (agents_dir @ [''shared''])))), w')
           \<and> frame {tgt} w w'"
proof -
  from copy_files_flat [OF assms, of md] obtain w1 where
    c: "copy_files (agents_dir @ [''shared'']) tgt md w =
          (Inr (length (node_files md (lookup (root w) (agents_dir @ [''shared''])))), w1)"
    and f: "frame {tgt} w w1"
    by blast
  have "frame {tgt} w1 (w1\<lparr>console := console w1 @ [m]\<rparr>)" for m
    by (rule frame_console)
  from frame_trans [OF f this] c assms(1) show ?thesis
    by (simp add: copy_shared_agents_def io_bind_def io_then_def show_success_eq io_return_def
        Let_def)
qed

lemma copy_language_agents_flat:
  assumes "path_exists (agents_dir @ [language]) w" and "flat tgt w"
    and "agents_dir @ [language] \<noteq> tgt"
  shows "\<exists>w'. copy_language_agents agents_dir tgt language k w =
           (Inr (k + length (node_files md (lookup (root w) (agents_dir @ [language])))), w')
           \<and> frame {tgt} w w'"
proof -
  from copy_files_flat [OF assms, of md] obtain w1 where
    c: "copy_files (agents_dir @ [language]) tgt md w =
          (Inr (length (node_files md (lookup (root w) (agents_dir @ [language])))), w1)"
    and f: "frame {tgt} w w1"
    by blast
  have "frame {tgt} w1 (w1\<lparr>console := console w1 @ [m]\<rparr>)" for m
    by (rule frame_console)
  from frame_trans [OF f this] c assms(1) show ?thesis
    by (simp add: copy_language_agents_def io_bind_def io_then_def show_success_eq io_return_def
        Let_def)
qed

lemma copy_registry_flat:
  assumes "is_file (agents_dir @ [''index.json'']) w" and "flat tgt w" and "agents_dir \<noteq> tgt"
  shows "\<exists>w'. copy_registry agents_dir tgt w = (Inr (), w') \<and> frame {tgt} w w'
           \<and> lookup (root w') (tgt @ [''index.json''])
               = lookup (root w) (agents_dir @ [''index.json''])"
proof -
  let ?r = "agents_dir @ [''index.json'']" and ?q = "tgt @ [''index.json'']"
  from assms(1) obtain c where c: "lookup (root w) ?r = Some (File c)"
    by (auto simp: is_file_iff)
  from assms(2) have t: "dir_flag (lookup (root w) tgt) = Some True"
    and sub: "dir_flag (lookup (root w) ?q) = None"
    by (simp_all add: flat_def)
  from sub have nd: "\<not> is_dir ?q w" by (simp add: is_dir_iff)
  from assms(3) have ne: "?r \<noteq> ?q" by simp
  from write_file_success [OF t sub] obtain n' where wr: "write_file (root w) ?q c = Inr n'"
    by blast
  define w1 where "w1 = w\<lparr>root := n'\<rparr>"
  have copy: "copy2 ?r ?q w = (Inr (), w1)"
    unfolding w1_def by (rule copy2_success [OF c nd ne wr])
  have f1: "frame {tgt} w w1"
    unfolding frame_def
  proof (intro conjI allI impI)
    fix p show "dir_flag (lookup (root w1) p) = dir_flag (lookup (root w) p)"
      using write_file_dir_flag [OF wr] by (simp add: w1_def)
  next
    fix d pat assume "d \<notin> {tgt}"
    then have "d \<noteq> butlast ?q" by simp
    from write_file_node_files [OF wr this]
    show "node_files pat (lookup (root w1) d) = node_files pat (lookup (root w) d)"
      by (simp add: w1_def)
  next
    fix d x k assume "d \<notin> {tgt}"
    then have "d @ [x] \<noteq> ?q" by auto
    from write_file_other [OF wr this]
    show "(lookup (root w1) (d @ [x]) = Some (File k)) = (lookup (root w) (d @ [x]) = Some (File k))"
      by (simp add: w1_def)
  qed (simp_all add: w1_def)
  have res: "lookup (root w1) ?q = lookup (root w) ?r"
    using write_file_result [OF wr] c by (simp add: w1_def)
  have pe: "path_exists ?r w"
    using assms(1) by (simp add: path_exists_iff)
  have "frame {tgt} w1 (w1\<lparr>console := console w1 @ [m]\<rparr>)" for m
    by (rule frame_console)
  from frame_trans [OF f1 this] copy pe res show ?thesis
    by (simp add: copy_registry_def io_then_def io_bind_def show_success_eq Let_def)
qed

lemma agent_targets_incomparable:
  assumes "map_of (AGENT_DIRS h) agent = Some ct"
    and "map_of (AGENT_AGENT_DIRS h) agent = Some at"
    and "map_of (AGENT_RULES_DIRS h) agent = Some rt"
  shows "\<not> prefix ct at" "\<not> prefix ct rt" "\<not> prefix at ct" "\<not> prefix at rt"
    "\<not> prefix rt ct" "\<not> prefix rt at"
  using assms
  by (auto simp: AGENT_DIRS_def AGENT_AGENT_DIRS_def AGENT_RULES_DIRS_def split: if_splits)

lemma show_info_eq: "show_info s w = (Inr (), w\<lparr>console := console w @ [Info s]\<rparr>)"
  by (simp add: show_info_def emit_def)

lemma create_directories_vacant:
  assumes "vacant (root w) ct" and "vacant (root w) at" and "vacant (root w) rt"
    and "\<not> prefix ct at" "\<not> prefix ct rt" "\<not> prefix at ct" "\<not> prefix at rt"
    "\<not> prefix rt ct" "\<not> prefix rt at"
  shows "\<exists>w1. create_directories ct at rt w = (Inr (), w1)
     \<and> lookup (root w1) ct = Some (Dir True []) \<and> lookup (root w1) at = Some (Dir True [])
     \<and> lookup (root w1) rt = Some (Dir True [])
     \<and> cwd w1 = cwd w \<and> home w1 = home w \<and> now w1 = now w
     \<and> (\<forall>p c. (lookup (root w1) p = Some (File c)) = (lookup (root w) p = Some (File c)))
     \<and> (\<forall>d pat. node_files pat (lookup (root w1) d) = node_files pat (lookup (root w) d))
     \<and> (\<forall>p. is_dir p w \<longrightarrow> is_dir p w1)"
proof -
  from mkdir_p_vacant [OF assms(1)] obtain n1 where
    m1: "mkdir_p (root w) ct = Inr n1" and c1: "lookup n1 ct = Some (Dir True [])"
    by blast
  from mkdir_p_keeps_vacant [OF m1 assms(2) assms(6)] have "vacant n1 at" .
  from mkdir_p_vacant [OF this] obtain n2 where
    m2: "mkdir_p n1 at = Inr n2" and a2: "lookup n2 at = Some (Dir True [])"
    by blast
  from mkdir_p_keeps_vacant [OF m1 assms(3) assms(8)] have "vacant n1 rt" .
  from mkdir_p_keeps_vacant [OF m2 this assms(9)] have "vacant n2 rt" .
  from mkdir_p_vacant [OF this] obtain n3 where
    m3: "mkdir_p n2 rt = Inr n3" and r3: "lookup n3 rt = Some (Dir True [])"
    by blast
  have c3: "lookup n3 ct = Some (Dir True [])"
    using mkdir_p_frame [OF m3 assms(5)] mkdir_p_frame [OF m2 assms(4)] c1 by simp
  have a3: "lookup n3 at = Some (Dir True [])"
    using mkdir_p_frame [OF m3 assms(7)] a2 by simp
  define w1 where "w1 = w\<lparr>root := n3, console := console w @
     [Info (''Commands: '' @ path_str ct), Info (''Agents: '' @ path_str at),
      Info (''Rules: '' @ path_str rt)]\<rparr>"
  have run: "create_directories ct at rt w = (Inr (), w1)"
    using m1 m2 m3
    by (simp add: create_directories_def io_then_def io_bind_def mkdir_def show_info_eq w1_def)
  have files: "(lookup (root w1) p = Some (File c)) = (lookup (root w) p = Some (File c))" for p c
    using mkdir_p_files [OF m1, of p c] mkdir_p_files [OF m2, of p c] mkdir_p_files [OF m3, of p c]
    by (simp add: w1_def)
  have nf: "node_files pat (lookup (root w1) d) = node_files pat (lookup (root w) d)" for d pat
    using mkdir_p_node_files [OF m1, of pat d] mkdir_p_node_files [OF m2, of pat d]
      mkdir_p_node_files [OF m3, of pat d]
    by (simp add: w1_def)
  have dirs: "is_dir p w1" if "is_dir p w" for p
  proof -
    from that obtain b where "dir_flag (lookup (root w) p) = Some b"
      by (auto simp: is_dir_iff)
    from mkdir_p_dir_flag [OF m3 mkdir_p_dir_flag [OF m2 mkdir_p_dir_flag [OF m1 this]]]
    show ?thesis by (simp add: is_dir_iff w1_def)
  qed
  have "cwd w1 = cwd w" "home w1 = home w" "now w1 = now w"
    "lookup (root w1) ct = Some (Dir True [])" "lookup (root w1) at = Some (Dir True [])"
    "lookup (root w1) rt = Some (Dir True [])"
    using c3 a3 r3 by (simp_all add: w1_def)
  with run files nf dirs show ?thesis
    by blast
qed

lemma empty_dir_flat:
  assumes "lookup (root w) t = Some (Dir True [])"
  shows "flat t w" and "node_files pat (lookup (root w) t) = []"
    and "lookup (root w) (t @ [x]) = None"
  using assms by (simp_all add: flat_def lookup_append)

lemma glob_all_files:
  assumes "\<forall>f\<in>set (glob d pat w). is_file f w"
  shows "length (node_files pat (lookup (root w) d)) = length (glob d pat w)"
proof -
  from assms have "files_in d pat w = glob d pat w"
    by (simp add: files_in_def)
  moreover have "length (files_in d pat w) = length (node_files pat (lookup (root w) d))"
    by (simp add: files_in_node)
  ultimately show ?thesis
    by simp
qed

lemma glob_nonempty_dir: "glob d pat w \<noteq> [] \<Longrightarrow> is_dir d w"
  by (auto simp: glob_def is_dir_def split: option.splits node.splits)

lemma install_to_vacant_target:
  assumes dirs: "map_of (AGENT_DIRS (home w)) agent = Some ct"
    "map_of (AGENT_AGENT_DIRS (home w)) agent = Some at"
    "map_of (AGENT_RULES_DIRS (home w)) agent = Some rt"
    and commands: "\<forall>f\<in>set (glob (cwd w @ [''commands'']) md w). is_file f w"
      "glob (cwd w @ [''commands'']) md w \<noteq> []"
    and shared: "\<forall>f\<in>set (glob (cwd w @ [''agents'', ''shared'']) md w). is_file f w"
      "glob (cwd w @ [''agents'', ''shared'']) md w \<noteq> []"
    and lang: "\<forall>f\<in>set (glob (cwd w @ [''agents'', language]) md w). is_file f w"
      "glob (cwd w @ [''agents'', language]) md w \<noteq> []"
    and rules: "\<forall>f\<in>set (glob (cwd w @ [''rules'']) md w). is_file f w"
      "glob (cwd w @ [''rules'']) md w \<noteq> []"
    and registry: "is_file (cwd w @ [''agents'', ''index.json'']) w"
    and vacant: "vacant (root w) ct" "vacant (root w) at" "vacant (root w) rt"
  shows "\<exists>w'. install_to_agent agent language w =
           (Inr \<lparr>commands_installed = length (glob (cwd w @ [''commands'']) md w),
                  agents_installed = length (glob (cwd w @ [''agents'', ''shared'']) md w)
                                     + length (glob (cwd w @ [''agents'', language]) md w),
                  rules_installed = length (glob (cwd w @ [''rules'']) md w),
                  success = True, errors = []\<rparr>, w')
         \<and> lookup (root w') (at @ [''index.json''])
             = lookup (root w) (cwd w @ [''agents'', ''index.json''])"
proof -
  define cd where "cd = cwd w @ [''commands'']"
  define ad where "ad = cwd w @ [''agents'']"
  define rd where "rd = cwd w @ [''rules'']"
  let ?sd = "ad @ [''shared'']" and ?ld = "ad @ [language]" and ?reg = "ad @ [''index.json'']"
  define kc where "kc = length (glob cd md w)"
  define ks where "ks = length (glob ?sd md w)"
  define kl where "kl = length (glob ?ld md w)"
  define kr where "kr = length (glob rd md w)"
  \<comment> \<open>the sources before the installation\<close>
  have nf0: "length (node_files md (lookup (root w) cd)) = kc"
    "length (node_files md (lookup (root w) ?sd)) = ks"
    "length (node_files md (lookup (root w) ?ld)) = kl"
    "length (node_files md (lookup (root w) rd)) = kr"
    using commands(1) shared(1) lang(1) rules(1)
    by (simp_all add: glob_all_files cd_def ad_def rd_def kc_def ks_def kl_def kr_def)
  have pos: "0 < kc" "0 < ks" "0 < kl" "0 < kr"
    using commands(2) shared(2) lang(2) rules(2)
    by (simp_all add: cd_def ad_def rd_def kc_def ks_def kl_def kr_def)
  have d0: "is_dir cd w" "is_dir ?sd w" "is_dir ?ld w" "is_dir rd w"
    using commands(2) shared(2) lang(2) rules(2)
    by (simp_all add: glob_nonempty_dir cd_def ad_def rd_def)
  from registry obtain c where reg0: "lookup (root w) ?reg = Some (File c)"
    by (auto simp: is_file_iff ad_def)
  \<comment> \<open>the directories are created\<close>
  note inc = agent_targets_incomparable [OF dirs]
  from create_directories_vacant [OF vacant inc] obtain w1 where
    mk: "create_directories ct at rt w = (Inr (), w1)"
    and empty: "lookup (root w1) ct = Some (Dir True [])" "lookup (root w1) at = Some (Dir True [])"
      "lookup (root w1) rt = Some (Dir True [])"
    and env1: "cwd w1 = cwd w"
    and files1: "\<forall>p c. (lookup (root w1) p = Some (File c)) = (lookup (root w) p = Some (File c))"
    and nf1: "\<forall>d pat. node_files pat (lookup (root w1) d) = node_files pat (lookup (root w) d)"
    and dirs1: "\<forall>p. is_dir p w \<longrightarrow> is_dir p w1"
    by blast
  have flat1: "flat ct w1" "flat at w1" "flat rt w1"
    using empty by (simp_all add: empty_dir_flat)
  have d1: "is_dir cd w1" "is_dir ?sd w1" "is_dir ?ld w1" "is_dir rd w1"
    using d0 dirs1 by simp_all
  have reg1: "lookup (root w1) ?reg = Some (File c)"
    using reg0 files1 by simp
  \<comment> \<open>no source is a target\<close>
  have ne: "s \<noteq> t" if "0 < length (node_files md (lookup (root w1) s))"
    "lookup (root w1) t = Some (Dir True [])" for s t
    using that by auto
  have src1: "length (node_files md (lookup (root w1) cd)) = kc"
    "length (node_files md (lookup (root w1) ?sd)) = ks"
    "length (node_files md (lookup (root w1) ?ld)) = kl"
    "length (node_files md (lookup (root w1) rd)) = kr"
    using nf0 nf1 by simp_all
  have T: "cd \<notin> {ct, at, rt}" "?sd \<notin> {ct, at, rt}" "?ld \<notin> {ct, at, rt}" "rd \<notin> {ct, at, rt}"
    using ne [of cd] ne [of ?sd] ne [of ?ld] ne [of rd] src1 pos empty by auto
  have adT: "ad \<notin> {ct, at, rt}"
  proof
    assume "ad \<in> {ct, at, rt}"
    then have "lookup (root w1) ?sd = None"
      using empty by (auto simp: lookup_append)
    moreover have "lookup (root w1) ?sd \<noteq> None"
      using d1(2) by (auto simp: is_dir_def split: option.splits)
    ultimately show False by simp
  qed
  have tt: "at \<noteq> rt"
    using inc by auto
  \<comment> \<open>nothing to back up\<close>
  have bk: "backup_commands ct w1 = (Inr (), w1)"
    using empty(1)
    by (simp add: backup_commands_def io_bind_def backup_existing_files_cases io_return_def)
  \<comment> \<open>commands\<close>
  from copy_commands_flat [of cd w1 ct] d1(1) flat1(1) T(1) src1(1) obtain w3 where
    cc: "copy_commands cd ct w1 = (Inr kc, w3)" and f3: "frame {ct} w1 w3"
    by (auto simp: path_exists_iff)
  have F3: "frame {ct, at, rt} w1 w3"
    by (rule frame_mono [OF f3]) simp
  \<comment> \<open>shared agents\<close>
  have "path_exists ?sd w3" "flat at w3" "?sd \<noteq> at"
    using frame_exists [OF F3 d1(2)] frame_flat [OF F3 flat1(2)] T(2) by auto
  from copy_shared_agents_flat [OF this, of 0] frame_files [OF F3 T(2), of md] src1(2)
  obtain w4 where
    cs: "copy_shared_agents ad at 0 w3 = (Inr ks, w4)" and f4: "frame {at} w3 w4"
    by auto
  have F4: "frame {ct, at, rt} w1 w4"
    by (rule frame_trans [OF F3 frame_mono [OF f4]]) simp
  \<comment> \<open>language agents\<close>
  have "path_exists ?ld w4" "flat at w4" "?ld \<noteq> at"
    using frame_exists [OF F4 d1(3)] frame_flat [OF F4 flat1(2)] T(3) by auto
  from copy_language_agents_flat [OF this, of ks] frame_files [OF F4 T(3), of md] src1(3)
  obtain w5 where
    cl: "copy_language_agents ad at language ks w4 = (Inr (ks + kl), w5)" and f5: "frame {at} w4 w5"
    by auto
  have F5: "frame {ct, at, rt} w1 w5"
    by (rule frame_trans [OF F4 frame_mono [OF f5]]) simp
  \<comment> \<open>the registry\<close>
  have reg5: "lookup (root w5) ?reg = Some (File c)"
    by (rule frame_lookup_file [OF F5 adT reg1])
  then have "is_file ?reg w5" "flat at w5" "ad \<noteq> at"
    using frame_flat [OF F5 flat1(2)] adT by (auto simp: is_file_iff)
  from copy_registry_flat [OF this] reg5 obtain w6 where
    cr: "copy_registry ad at w5 = (Inr (), w6)" and f6: "frame {at} w5 w6"
    and idx6: "lookup (root w6) (at @ [''index.json'']) = Some (File c)"
    by auto
  have F6: "frame {ct, at, rt} w1 w6"
    by (rule frame_trans [OF F5 frame_mono [OF f6]]) simp
  have ca: "copy_agents ad at language w3 = (Inr (ks + kl), w6)"
    using cs cl cr by (simp add: copy_agents_def io_bind_def io_then_def io_return_def)
  \<comment> \<open>rules\<close>
  have "path_exists rd w6" "flat rt w6" "rd \<noteq> rt"
    using frame_exists [OF F6 d1(4)] frame_flat [OF F6 flat1(3)] T(4) by auto
  from copy_rules_flat [OF this] frame_files [OF F6 T(4), of md] src1(4)
  obtain w7 where
    cu: "copy_rules rd rt w6 = (Inr kr, w7)" and f7: "frame {rt} w6 w7"
    by auto
  have idx7: "lookup (root w7) (at @ [''index.json'']) = Some (File c)"
    using frame_lookup_file [OF f7 _ idx6] tt by simp
  \<comment> \<open>reconciliation\<close>
  obtain pc ps pl pr where "fst (count_files language w7) = Inr (pc, ps, pl, pr)"
    using count_files_total by blast
  from verify_installation_eq [OF this, of kc "ks + kl" kr] obtain w8 where
    vf: "verify_installation language kc (ks + kl) kr w7 = (Inr (), w8)" and r8: "root w8 = root w7"
    by simp
  \<comment> \<open>the whole installation\<close>
  have src: "path_exists (cwd w @ [''commands'']) w"
    using d0(1) by (simp add: path_exists_iff cd_def)
  have "install_to_agent agent language w =
          (Inr \<lparr>commands_installed = kc, agents_installed = ks + kl, rules_installed = kr,
                 success = True, errors = []\<rparr>, w8)"
    unfolding install_to_agent_unfold [OF dirs]
    using src mk bk cc ca cu vf
    by (simp add: io_then_def io_bind_def io_return_def cd_def [symmetric] ad_def [symmetric]
        rd_def [symmetric])
  moreover have "lookup (root w8) (at @ [''index.json''])
      = lookup (root w) (cwd w @ [''agents'', ''index.json''])"
    using idx7 r8 reg0 by (simp add: ad_def)
  ultimately show ?thesis
    by (auto simp: kc_def ks_def kl_def kr_def cd_def ad_def rd_def)
qed

text \<open>
  Claim C3. For the language \<^verbatim>\<open>python\<close> and a supported agent: when the source catalog
  holds 5 command files, 3 shared agent files, 4 python agent files and 2 rule files (the
  glob yields that many entries and each is a regular file), the registry file exists,
  and the three target directories are vacant, the plan is (5, 3, 4, 2), the
  installation returns the result (5, 7, 2, success = True, no errors), and afterwards
  \<^verbatim>\<open>index.json\<close> is a file of the agents target directory.
\<close>

theorem install_scenario:
  assumes "map_of (AGENT_DIRS (home w)) agent = Some commands_target"
    and "map_of (AGENT_AGENT_DIRS (home w)) agent = Some agents_target"
    and "map_of (AGENT_RULES_DIRS (home w)) agent = Some rules_target"
    and "length (glob (cwd w @ [''commands'']) md w) = 5"
    and "\<forall>f\<in>set (glob (cwd w @ [''commands'']) md w). is_file f w"
    and "length (glob (cwd w @ [''agents'', ''shared'']) md w) = 3"
    and "\<forall>f\<in>set (glob (cwd w @ [''agents'', ''shared'']) md w). is_file f w"
    and "length (glob (cwd w @ [''agents'', ''python'']) md w) = 4"
    and "\<forall>f\<in>set (glob (cwd w @ [''agents'', ''python'']) md w). is_file f w"
    and "length (glob (cwd w @ [''rules'']) md w) = 2"
    and "\<forall>f\<in>set (glob (cwd w @ [''rules'']) md w). is_file f w"
    and "is_file (cwd w @ [''agents'', ''index.json'']) w"
    and "vacant (root w) commands_target"
    and "vacant (root w) agents_target"
    and "vacant (root w) rules_target"
  shows "count_files ''python'' w = (Inr (5, 3, 4, 2), w)
    \<and> (\<exists>w'. install_to_agent agent ''python'' w =
              (Inr \<lparr>commands_installed = 5, agents_installed = 7, rules_installed = 2,
                     success = True, errors = []\<rparr>, w')
            \<and> is_file (agents_target @ [''index.json'']) w')"
proof -
  have ne: "glob (cwd w @ [''commands'']) md w \<noteq> []"
    "glob (cwd w @ [''agents'', ''shared'']) md w \<noteq> []"
    "glob (cwd w @ [''agents'', ''python'']) md w \<noteq> []"
    "glob (cwd w @ [''rules'']) md w \<noteq> []"
    using assms(4,6,8,10) by auto
  then have "path_exists (cwd w @ [''commands'']) w"
    "path_exists (cwd w @ [''agents'', ''shared'']) w"
    "path_exists (cwd w @ [''agents'', ''python'']) w"
    "path_exists (cwd w @ [''rules'']) w"
    by (simp_all add: glob_nonempty_dir path_exists_iff)
  then have plan: "count_files ''python'' w = (Inr (5, 3, 4, 2), w)"
    using assms(4,6,8,10)
    by (simp add: count_files_def get_source_dirs_def get_script_dir_def Let_def)
  from install_to_vacant_target [OF assms(1-3) assms(5) ne(1) assms(7) ne(2) assms(9) ne(3)
      assms(11) ne(4) assms(12-15)]
  obtain w' where run: "install_to_agent agent ''python'' w =
           (Inr \<lparr>commands_installed = length (glob (cwd w @ [''commands'']) md w),
                  agents_installed = length (glob (cwd w @ [''agents'', ''shared'']) md w)
                                     + length (glob (cwd w @ [''agents'', ''python'']) md w),
                  rules_installed = length (glob (cwd w @ [''rules'']) md w),
                  success = True, errors = []\<rparr>, w')"
    and idx: "lookup (root w') (agents_target @ [''index.json''])
             = lookup (root w) (cwd w @ [''agents'', ''index.json''])"
    by blast
  from idx assms(12) have "is_file (agents_target @ [''index.json'']) w'"
    by (simp add: is_file_def)
  with run assms(4,6,8,10) plan show ?thesis
    by simp
qed

theorem install_scenario_witness:
  "count_files ''python'' fresh_world = (Inr (5, 3, 4, 2), fresh_world)
   \<and> fst (install_to_agent ''claude-code'' ''python'' fresh_world) =
       Inr \<lparr>commands_installed = 5, agents_installed = 7, rules_installed = 2,
              success = True, errors = []\<rparr>
   \<and> is_file [''home'', ''user'', ''.claude'', ''agents'', ''index.json'']
       (snd (install_to_agent ''claude-code'' ''python'' fresh_world))"
proof -
  have h: "home fresh_world = [''home'', ''user'']" and c: "cwd fresh_world = [''work'', ''sage-dev'']"
    by (simp_all add: fresh_world_def)
  have d: "map_of (AGENT_DIRS (home fresh_world)) ''claude-code''
             = Some [''home'', ''user'', ''.claude'', ''commands'']"
    "map_of (AGENT_AGENT_DIRS (home fresh_world)) ''claude-code''
             = Some [''home'', ''user'', ''.claude'', ''agents'']"
    "map_of (AGENT_RULES_DIRS (home fresh_world)) ''claude-code''
             = Some [''home'', ''user'', ''.claude'', ''rules'']"
    by (simp_all add: h AGENT_DIRS_def AGENT_AGENT_DIRS_def AGENT_RULES_DIRS_def)
  have n: "length (glob (cwd fresh_world @ [''commands'']) md fresh_world) = 5"
    "length (glob (cwd fresh_world @ [''agents'', ''shared'']) md fresh_world) = 3"
    "length (glob (cwd fresh_world @ [''agents'', ''python'']) md fresh_world) = 4"
    "length (glob (cwd fresh_world @ [''rules'']) md fresh_world) = 2"
    by code_simp+
  have f: "\<forall>f\<in>set (glob (cwd fresh_world @ [''commands'']) md fresh_world). is_file f fresh_world"
    "\<forall>f\<in>set (glob (cwd fresh_world @ [''agents'', ''shared'']) md fresh_world). is_file f fresh_world"
    "\<forall>f\<in>set (glob (cwd fresh_world @ [''agents'', ''python'']) md fresh_world). is_file f fresh_world"
    "\<forall>f\<in>set (glob (cwd fresh_world @ [''rules'']) md fresh_world). is_file f fresh_world"
    by code_simp+
  have r: "is_file (cwd fresh_world @ [''agents'', ''index.json'']) fresh_world"
    by code_simp
  have v: "vacant (root fresh_world) [''home'', ''user'', ''.claude'', ''commands'']"
    "vacant (root fresh_world) [''home'', ''user'', ''.claude'', ''agents'']"
    "vacant (root fresh_world) [''home'', ''user'', ''.claude'', ''rules'']"
    by code_simp+
  from install_scenario [OF d n(1) f(1) n(2) f(2) n(3) f(3) n(4) f(4) r v] show ?thesis
    by auto
qed

end
